theory Spec2Isabelle
  imports Complex_Main "HOL-Library.Word"
begin

section \<open>Floating-point numbers\<close>

text \<open>
  The C++ sources compute in \<open>float\<close> and \<open>double\<close>. Both are taken as IEEE 754 binary
  formats (\<open>binary32\<close> and \<open>binary64\<close>) with round to nearest, ties to even, and gradual
  underflow; every operation is rounded once, to the type C++ gives it by the usual
  arithmetic conversions (no excess precision, no fused multiply-add). A \<open>float\<close> or
  \<open>double\<close> value is the real number it denotes.

  \<open>fl fmt x\<close> rounds the real \<open>x\<close> to the format: to a multiple of the quantum of \<open>x\<close>,
  which is \<open>2 ^ (e - (p - 1))\<close> for \<open>p\<close> the precision and \<open>e\<close> the binary exponent of \<open>x\<close>,
  but never below \<open>emin\<close> (the subnormal numbers). \<open>fl\<close> has no largest exponent: a
  result whose magnitude exceeds \<open>largest fmt\<close> stands for an infinity of the machine.
  \<open>applySigmoidFunction\<close> below follows that case explicitly; everywhere else the model
  agrees with the machine as long as no result exceeds \<open>largest\<close>.
\<close>

record format =
  precision :: nat
  emin :: int
  emax :: int

definition binary32 :: format where
  "binary32 = \<lparr>precision = 24, emin = - 126, emax = 127\<rparr>"

definition binary64 :: format where
  "binary64 = \<lparr>precision = 53, emin = - 1022, emax = 1023\<rparr>"

definition round_ties_even :: "real \<Rightarrow> int" where
  "round_ties_even x =
     (let n = \<lfloor>x\<rfloor>; r = x - of_int n
      in if r < 1 / 2 then n else if 1 / 2 < r then n + 1 else if even n then n else n + 1)"

definition quantum :: "format \<Rightarrow> real \<Rightarrow> real" where
  "quantum fmt x = 2 powr of_int (max \<lfloor>log 2 \<bar>x\<bar>\<rfloor> (emin fmt) - (int (precision fmt) - 1))"

definition fl :: "format \<Rightarrow> real \<Rightarrow> real" where
  "fl fmt x = (if x = 0 then 0 else of_int (round_ties_even (x / quantum fmt x)) * quantum fmt x)"

definition largest :: "format \<Rightarrow> real" where
  "largest fmt = (2 ^ precision fmt - 1) * 2 powr of_int (emax fmt - (int (precision fmt) - 1))"

text \<open>
  The operations of \<open>float\<close> (\<open>fadd\<close>, \<open>fsub\<close>, \<open>fmul\<close>, \<open>fdiv\<close>) and of \<open>double\<close>
  (\<open>dadd\<close>, \<open>dmul\<close>), and the conversion of a \<open>double\<close> to \<open>float\<close>. The conversion of
  a \<open>float\<close> to \<open>double\<close> is exact and is not written.
\<close>

definition fadd :: "real \<Rightarrow> real \<Rightarrow> real" where
  "fadd x y = fl binary32 (x + y)"

definition fsub :: "real \<Rightarrow> real \<Rightarrow> real" where
  "fsub x y = fl binary32 (x - y)"

definition fmul :: "real \<Rightarrow> real \<Rightarrow> real" where
  "fmul x y = fl binary32 (x * y)"

definition fdiv :: "real \<Rightarrow> real \<Rightarrow> real" where
  "fdiv x y = fl binary32 (x / y)"

definition dadd :: "real \<Rightarrow> real \<Rightarrow> real" where
  "dadd x y = fl binary64 (x + y)"

definition dmul :: "real \<Rightarrow> real \<Rightarrow> real" where
  "dmul x y = fl binary64 (x * y)"

definition float_of_double :: "real \<Rightarrow> real" where
  "float_of_double x = fl binary32 x"

section \<open>Faults and loops\<close>

text \<open>
  Undefined behaviour of the source (a null \<open>shared_ptr\<close> dereferenced, an index past a
  weight row, an index past one of the scratch buffers of \<open>backPropagate\<close>, an index
  past another raw array, a read of a cell never written, a distribution constructed
  with its bounds in the wrong order) is a value of type \<open>fault\<close>; a function that can
  run into one returns \<open>fault + 'a\<close>.
\<close>

datatype fault =
    NullPointer
  | WeightIndexOutOfRange
  | ScratchIndexOutOfRange
  | ArrayIndexOutOfRange
  | UninitializedRead
  | DistributionBounds

definition andThen :: "fault + 'a \<Rightarrow> ('a \<Rightarrow> fault + 'b) \<Rightarrow> fault + 'b" where
  "andThen m f = (case m of Inl e \<Rightarrow> Inl e | Inr x \<Rightarrow> f x)"

text \<open>
  \<open>forEach is body s\<close> runs \<open>body i\<close> for every \<open>i\<close> of \<open>is\<close> in order, threading
  the state and stopping at the first fault. The loop
  \<^verbatim>\<open>for (size_t i = 0; i < v.size(); i++) body\<close> is \<open>forEach [0..<length v] body\<close>.
\<close>

fun forEach :: "'i list \<Rightarrow> ('i \<Rightarrow> 's \<Rightarrow> fault + 's) \<Rightarrow> 's \<Rightarrow> fault + 's" where
  "forEach [] body s = Inr s"
| "forEach (i # is) body s = andThen (body i s) (forEach is body)"

section \<open>Neurons and layers\<close>

text \<open>
  Modelled from the spec: the class \<open>CNeuron\<close> of \<open>DNN.h\<close>, which is not among the
  sources. A neuron holds one activation value and the row of its outgoing weights,
  all of type \<open>float\<close>;
  \<open>getWeight\<close> and \<open>setWeight\<close> index the row without a bounds check, so an index past
  the row is a fault. A layer is a \<open>std::vector\<close> of shared pointers: a list of
  addresses into a store of neurons, so that two layers (or two positions of one
  layer) can name the same neuron.
\<close>

record CNeuron =
  nodeValue :: real
  weights :: "real list"

type_synonym ptr_neuron_t = nat

type_synonym store = "ptr_neuron_t \<Rightarrow> CNeuron option"

definition getNodeValue :: "store \<Rightarrow> ptr_neuron_t \<Rightarrow> fault + real" where
  "getNodeValue h p = (case h p of None \<Rightarrow> Inl NullPointer | Some n \<Rightarrow> Inr (nodeValue n))"

definition setNodeValue :: "store \<Rightarrow> ptr_neuron_t \<Rightarrow> real \<Rightarrow> fault + store" where
  "setNodeValue h p v =
     (case h p of None \<Rightarrow> Inl NullPointer
      | Some n \<Rightarrow> Inr (h(p \<mapsto> n\<lparr>nodeValue := v\<rparr>)))"

definition getWeight :: "store \<Rightarrow> ptr_neuron_t \<Rightarrow> nat \<Rightarrow> fault + real" where
  "getWeight h p j =
     (case h p of None \<Rightarrow> Inl NullPointer
      | Some n \<Rightarrow> if j < length (weights n) then Inr (weights n ! j)
                  else Inl WeightIndexOutOfRange)"

definition setWeight :: "store \<Rightarrow> ptr_neuron_t \<Rightarrow> nat \<Rightarrow> real \<Rightarrow> fault + store" where
  "setWeight h p j w =
     (case h p of None \<Rightarrow> Inl NullPointer
      | Some n \<Rightarrow> if j < length (weights n)
                  then Inr (h(p \<mapsto> n\<lparr>weights := (weights n)[j := w]\<rparr>))
                  else Inl WeightIndexOutOfRange)"

section \<open>Demo ICR.cpp\<close>

text \<open>
  \<open>float sigmoid = 1 / (1 + exp(-val))\<close>. Depending on which overload of \<open>exp\<close> the
  absent header brings into scope, \<open>exp\<close>, the addition and the division are done in
  \<open>float\<close> or in \<open>double\<close>: that type is the parameter \<open>fmt\<close>, \<open>binary32\<close> or \<open>binary64\<close>.
  The result is stored in a \<open>float\<close> in both cases. The library's \<open>exp\<close> is taken as
  correctly rounded. When \<open>exp(-val)\<close> overflows it is an infinity, so is the sum, and
  the quotient is 0. A finite \<open>exp(-val)\<close> is at most \<open>largest fmt\<close>; adding 1 to it, and
  dividing 1 by a sum that is at least 1, cannot overflow.
\<close>

definition applySigmoidFunction :: "format \<Rightarrow> real \<Rightarrow> real" where
  "applySigmoidFunction fmt val =
     (let e = fl fmt (exp (- val))
      in if largest fmt < e then 0
         else float_of_double (fl fmt (1 / fl fmt (1 + e))))"

subsection \<open>dotProd\<close>

text \<open>
  The range-for over the upstream layer: \<open>value += a->getWeight(i) * a->getNodeValue()\<close>,
  a \<open>float\<close> product added to the \<open>float value\<close>.
\<close>

fun dotProd_sum :: "store \<Rightarrow> ptr_neuron_t list \<Rightarrow> nat \<Rightarrow> real \<Rightarrow> fault + real" where
  "dotProd_sum h [] i val = Inr val"
| "dotProd_sum h (a # as) i val =
     andThen (getWeight h a i) (\<lambda>w.
     andThen (getNodeValue h a) (\<lambda>v.
     dotProd_sum h as i (fadd val (fmul w v))))"

definition dotProd_body ::
  "format \<Rightarrow> ptr_neuron_t list \<Rightarrow> ptr_neuron_t list \<Rightarrow> nat \<Rightarrow> store \<Rightarrow> fault + store" where
  "dotProd_body fmt vpLayerA vpLayerB i h =
     andThen (dotProd_sum h vpLayerA i 0) (\<lambda>val.
     setNodeValue h (vpLayerB ! i) (applySigmoidFunction fmt val))"

definition dotProd ::
  "format \<Rightarrow> store \<Rightarrow> ptr_neuron_t list \<Rightarrow> ptr_neuron_t list \<Rightarrow> fault + store" where
  "dotProd fmt h vpLayerA vpLayerB =
     forEach [0..<length vpLayerB] (dotProd_body fmt vpLayerA vpLayerB) h"

subsection \<open>backPropagate\<close>

definition numNeuronsInputLayer :: nat where
  "numNeuronsInputLayer = 784"

definition numNeuronsHiddenLayer :: nat where
  "numNeuronsHiddenLayer = 60"

definition numNeuronsOutputLayer :: nat where
  "numNeuronsOutputLayer = 10"

text \<open>\<open>float learningRate = 0.1\<close>: the \<open>double\<close> nearest to 0.1, converted to \<open>float\<close>.\<close>

definition learningRate :: real where
  "learningRate = float_of_double (fl binary64 (1 / 10))"

text \<open>
  The state of one call: the store of neurons and the three scratch buffers
  \<open>new float[60][10]\<close>, \<open>new float[784][60]\<close> and \<open>new float[60]\<close>. A buffer maps an
  index to the value last written there, \<open>None\<close> for a cell not written yet; its
  extent is checked at every access. The buffers are never freed, so they are part of
  the state the call leaves behind.
\<close>

record frame =
  heap :: store
  DeltaWjk :: "nat \<times> nat \<Rightarrow> real option"
  DeltaWik :: "nat \<times> nat \<Rightarrow> real option"
  DeltaJ :: "nat \<Rightarrow> real option"

definition write_DeltaWjk :: "nat \<Rightarrow> nat \<Rightarrow> real \<Rightarrow> frame \<Rightarrow> fault + frame" where
  "write_DeltaWjk i j v f =
     (if i < numNeuronsHiddenLayer \<and> j < numNeuronsOutputLayer
      then Inr (f\<lparr>DeltaWjk := (DeltaWjk f)((i, j) \<mapsto> v)\<rparr>)
      else Inl ScratchIndexOutOfRange)"

definition read_DeltaWjk :: "nat \<Rightarrow> nat \<Rightarrow> frame \<Rightarrow> fault + real" where
  "read_DeltaWjk i j f =
     (if i < numNeuronsHiddenLayer \<and> j < numNeuronsOutputLayer
      then (case DeltaWjk f (i, j) of None \<Rightarrow> Inl UninitializedRead | Some v \<Rightarrow> Inr v)
      else Inl ScratchIndexOutOfRange)"

definition write_DeltaWik :: "nat \<Rightarrow> nat \<Rightarrow> real \<Rightarrow> frame \<Rightarrow> fault + frame" where
  "write_DeltaWik i j v f =
     (if i < numNeuronsInputLayer \<and> j < numNeuronsHiddenLayer
      then Inr (f\<lparr>DeltaWik := (DeltaWik f)((i, j) \<mapsto> v)\<rparr>)
      else Inl ScratchIndexOutOfRange)"

definition read_DeltaWik :: "nat \<Rightarrow> nat \<Rightarrow> frame \<Rightarrow> fault + real" where
  "read_DeltaWik i j f =
     (if i < numNeuronsInputLayer \<and> j < numNeuronsHiddenLayer
      then (case DeltaWik f (i, j) of None \<Rightarrow> Inl UninitializedRead | Some v \<Rightarrow> Inr v)
      else Inl ScratchIndexOutOfRange)"

definition write_DeltaJ :: "nat \<Rightarrow> real \<Rightarrow> frame \<Rightarrow> fault + frame" where
  "write_DeltaJ i v f =
     (if i < numNeuronsHiddenLayer
      then Inr (f\<lparr>DeltaJ := (DeltaJ f)(i \<mapsto> v)\<rparr>)
      else Inl ScratchIndexOutOfRange)"

definition read_DeltaJ :: "nat \<Rightarrow> frame \<Rightarrow> fault + real" where
  "read_DeltaJ i f =
     (if i < numNeuronsHiddenLayer
      then (case DeltaJ f i of None \<Rightarrow> Inl UninitializedRead | Some v \<Rightarrow> Inr v)
      else Inl ScratchIndexOutOfRange)"

text \<open>
  The parameter \<open>double resultErrorRate[]\<close> is a pointer to an array whose extent the
  callee does not know: the list holds the cells the caller has allocated and
  written, and a read past it is a fault.
\<close>

definition read_resultErrorRate :: "real list \<Rightarrow> nat \<Rightarrow> fault + real" where
  "read_resultErrorRate resultErrorRate j =
     (if j < length resultErrorRate then Inr (resultErrorRate ! j)
      else Inl ArrayIndexOutOfRange)"

text \<open>
  First loop nest (lines 205 to 213): the hidden-to-output gradients and the hidden
  deltas. \<open>nodeVal\<close> and \<open>resultErrorRate[j]\<close> are \<open>double\<close>, so the products with them
  and the sum are \<open>double\<close> operations; \<open>1 - sigmoid\<close> is a \<open>float\<close> operation; a value
  assigned to a cell of \<open>DeltaWjk\<close> or \<open>DeltaJ\<close> is converted to \<open>float\<close>.
\<close>

definition deltas_inner ::
  "ptr_neuron_t list \<Rightarrow> real list \<Rightarrow> nat \<Rightarrow> nat \<Rightarrow> real \<times> frame \<Rightarrow> fault + real \<times> frame" where
  "deltas_inner vpLayerB resultErrorRate i j = (\<lambda>(nodeVal, f).
     andThen (getWeight (heap f) (vpLayerB ! i) j) (\<lambda>w.
     andThen (read_resultErrorRate resultErrorRate j) (\<lambda>e.
     andThen (getNodeValue (heap f) (vpLayerB ! i)) (\<lambda>v.
     andThen (write_DeltaWjk i j (float_of_double (dmul (dmul learningRate e) v)) f) (\<lambda>f'.
     Inr (dadd nodeVal (dmul w e), f'))))))"

definition deltas_body ::
  "format \<Rightarrow> ptr_neuron_t list \<Rightarrow> ptr_neuron_t list \<Rightarrow> real list \<Rightarrow> nat \<Rightarrow> frame
     \<Rightarrow> fault + frame" where
  "deltas_body fmt vpLayerB vpLayerC resultErrorRate i f =
     andThen (forEach [0..<length vpLayerC] (deltas_inner vpLayerB resultErrorRate i) (0, f))
       (\<lambda>(nodeVal, f1).
     andThen (getNodeValue (heap f1) (vpLayerB ! i)) (\<lambda>v.
     let sigmoid = applySigmoidFunction fmt v
     in write_DeltaJ i (float_of_double (dmul (dmul nodeVal sigmoid) (fsub 1 sigmoid))) f1))"

text \<open>Second loop nest (lines 215 to 221): the input-to-hidden weights, all in \<open>float\<close>.\<close>

definition updateA_inner :: "ptr_neuron_t list \<Rightarrow> nat \<Rightarrow> nat \<Rightarrow> frame \<Rightarrow> fault + frame" where
  "updateA_inner vpLayerA i j f =
     andThen (read_DeltaJ j f) (\<lambda>d.
     andThen (getNodeValue (heap f) (vpLayerA ! i)) (\<lambda>v.
     andThen (write_DeltaWik i j (fmul (fmul learningRate d) v) f) (\<lambda>f1.
     andThen (getWeight (heap f1) (vpLayerA ! i) j) (\<lambda>oldWeight.
     andThen (read_DeltaWik i j f1) (\<lambda>dw.
     andThen (setWeight (heap f1) (vpLayerA ! i) j (fadd oldWeight dw)) (\<lambda>h'.
     Inr (f1\<lparr>heap := h'\<rparr>)))))))"

definition updateA_body ::
  "ptr_neuron_t list \<Rightarrow> ptr_neuron_t list \<Rightarrow> nat \<Rightarrow> frame \<Rightarrow> fault + frame" where
  "updateA_body vpLayerA vpLayerB i f =
     forEach [0..<length vpLayerB] (updateA_inner vpLayerA i) f"

text \<open>Third loop nest (lines 223 to 228): the hidden-to-output weights, in \<open>float\<close>.\<close>

definition updateB_inner :: "ptr_neuron_t list \<Rightarrow> nat \<Rightarrow> nat \<Rightarrow> frame \<Rightarrow> fault + frame" where
  "updateB_inner vpLayerB i j f =
     andThen (getWeight (heap f) (vpLayerB ! i) j) (\<lambda>oldWeight.
     andThen (read_DeltaWjk i j f) (\<lambda>dw.
     andThen (setWeight (heap f) (vpLayerB ! i) j (fadd oldWeight dw)) (\<lambda>h'.
     Inr (f\<lparr>heap := h'\<rparr>))))"

definition updateB_body ::
  "ptr_neuron_t list \<Rightarrow> ptr_neuron_t list \<Rightarrow> nat \<Rightarrow> frame \<Rightarrow> fault + frame" where
  "updateB_body vpLayerB vpLayerC i f =
     forEach [0..<length vpLayerC] (updateB_inner vpLayerB i) f"

definition new_frame :: "store \<Rightarrow> frame" where
  "new_frame h = \<lparr>heap = h, DeltaWjk = (\<lambda>_. None), DeltaWik = (\<lambda>_. None), DeltaJ = (\<lambda>_. None)\<rparr>"

definition backPropagate ::
  "format \<Rightarrow> store \<Rightarrow> ptr_neuron_t list \<Rightarrow> ptr_neuron_t list \<Rightarrow> ptr_neuron_t list \<Rightarrow> real list
     \<Rightarrow> fault + frame" where
  "backPropagate fmt h vpLayerA vpLayerB vpLayerC resultErrorRate =
     andThen (forEach [0..<length vpLayerB] (deltas_body fmt vpLayerB vpLayerC resultErrorRate)
                (new_frame h)) (\<lambda>f1.
     andThen (forEach [0..<length vpLayerA] (updateA_body vpLayerA vpLayerB) f1) (\<lambda>f2.
     forEach [0..<length vpLayerB] (updateB_body vpLayerB vpLayerC) f2))"

subsection \<open>main: one training sample, one test sample\<close>

text \<open>
  A raw array \<open>new double[n]\<close> is a list of \<open>n\<close> cells, \<open>None\<close> for a cell not written
  yet. \<open>written\<close> is what a callee can read of it: the cells up to the first one never
  written.
\<close>

definition array_write :: "real option list \<Rightarrow> nat \<Rightarrow> real \<Rightarrow> fault + real option list" where
  "array_write a i v = (if i < length a then Inr (a[i := Some v]) else Inl ArrayIndexOutOfRange)"

definition array_read :: "real option list \<Rightarrow> nat \<Rightarrow> fault + real" where
  "array_read a i =
     (if i < length a
      then (case a ! i of None \<Rightarrow> Inl UninitializedRead | Some v \<Rightarrow> Inr v)
      else Inl ArrayIndexOutOfRange)"

definition written :: "real option list \<Rightarrow> real list" where
  "written a = map the (takeWhile (\<lambda>c. c \<noteq> None) a)"

text \<open>
  Lines 115 to 118: the pixels of the sample, scaled by 255, become the input
  activations: \<open>(float)trainDataBin[k][i]/255\<close> converts the pixel to \<open>float\<close> and divides
  in \<open>float\<close>.
\<close>

definition setInput_body :: "ptr_neuron_t list \<Rightarrow> int list \<Rightarrow> nat \<Rightarrow> store \<Rightarrow> fault + store" where
  "setInput_body vpInputLayer trainDataBin_k i h =
     (if i < length trainDataBin_k
      then setNodeValue h (vpInputLayer ! i)
             (fdiv (fl binary32 (real_of_int (trainDataBin_k ! i))) 255)
      else Inl ArrayIndexOutOfRange)"

definition setInput :: "store \<Rightarrow> ptr_neuron_t list \<Rightarrow> int list \<Rightarrow> fault + store" where
  "setInput h vpInputLayer trainDataBin_k =
     forEach [0..<length vpInputLayer] (setInput_body vpInputLayer trainDataBin_k) h"

text \<open>
  Lines 123 to 127: the error vector of the sample. The label is a \<open>byte\<close>, compared
  with the index as an unsigned number. The subtraction is one of \<open>double\<close>, of a
  \<open>float\<close> activation from 0 or 1; it is written as the exact difference. For an
  activation between 0 and 1, as \<open>dotProd\<close> stores it, that is the value of the \<open>double\<close>
  subtraction unless the label is the index and the activation is below \<open>2 ^ - 29\<close>.
\<close>

definition resultErrorRate_body ::
  "store \<Rightarrow> ptr_neuron_t list \<Rightarrow> 8 word \<Rightarrow> nat \<Rightarrow> real option list \<Rightarrow> fault + real option list" where
  "resultErrorRate_body h vpOutputLayer trainDataDigit_k i resultErrorRate =
     andThen (array_write resultErrorRate i (if unat trainDataDigit_k = i then 1 else 0)) (\<lambda>r1.
     andThen (array_read r1 i) (\<lambda>x.
     andThen (getNodeValue h (vpOutputLayer ! i)) (\<lambda>v.
     array_write r1 i (x - v))))"

definition compute_resultErrorRate ::
  "store \<Rightarrow> ptr_neuron_t list \<Rightarrow> 8 word \<Rightarrow> fault + real option list" where
  "compute_resultErrorRate h vpOutputLayer trainDataDigit_k =
     forEach [0..<length vpOutputLayer] (resultErrorRate_body h vpOutputLayer trainDataDigit_k)
       (replicate numNeuronsOutputLayer None)"

text \<open>Lines 114 to 131: the body of the training loop for one sample.\<close>

definition trainSample ::
  "format \<Rightarrow> store \<Rightarrow> ptr_neuron_t list \<Rightarrow> ptr_neuron_t list \<Rightarrow> ptr_neuron_t list \<Rightarrow> int list
     \<Rightarrow> 8 word \<Rightarrow> fault + frame" where
  "trainSample fmt h vpInputLayer vpHiddenLayer vpOutputLayer trainDataBin_k trainDataDigit_k =
     andThen (setInput h vpInputLayer trainDataBin_k) (\<lambda>h1.
     andThen (dotProd fmt h1 vpInputLayer vpHiddenLayer) (\<lambda>h2.
     andThen (dotProd fmt h2 vpHiddenLayer vpOutputLayer) (\<lambda>h3.
     andThen (compute_resultErrorRate h3 vpOutputLayer trainDataDigit_k) (\<lambda>resultErrorRate.
     backPropagate fmt h3 vpInputLayer vpHiddenLayer vpOutputLayer (written resultErrorRate)))))"

text \<open>
  Lines 156 to 168: the predicted digit of a test sample. \<open>number\<close> is declared without
  an initial value: it is \<open>None\<close> until the scan assigns it. The activations are
  \<open>float\<close> values; their conversion to \<open>double\<close> (into \<open>allPredictionsforDigits\<close>) and
  back to \<open>float\<close> (into \<open>maxAccuracy\<close>) is exact and is not written.
\<close>

definition allPredictions_body ::
  "store \<Rightarrow> ptr_neuron_t list \<Rightarrow> nat \<Rightarrow> real option list \<Rightarrow> fault + real option list" where
  "allPredictions_body h vpOutputLayer i allPredictionsforDigits =
     andThen (getNodeValue h (vpOutputLayer ! i)) (\<lambda>v.
     array_write allPredictionsforDigits i v)"

definition maxScan_body ::
  "real option list \<Rightarrow> nat \<Rightarrow> real \<times> nat option \<Rightarrow> fault + real \<times> nat option" where
  "maxScan_body allPredictionsforDigits i = (\<lambda>(maxAccuracy, number).
     andThen (array_read allPredictionsforDigits i) (\<lambda>p.
     if p \<ge> maxAccuracy then Inr (p, Some i) else Inr (maxAccuracy, number)))"

definition maxScan :: "real option list \<Rightarrow> nat \<Rightarrow> fault + nat option" where
  "maxScan allPredictionsforDigits n =
     andThen (forEach [0..<n] (maxScan_body allPredictionsforDigits) (0, None))
       (\<lambda>(maxAccuracy, number). Inr number)"

definition predictDigit :: "store \<Rightarrow> ptr_neuron_t list \<Rightarrow> fault + nat option" where
  "predictDigit h vpOutputLayer =
     andThen (forEach [0..<length vpOutputLayer] (allPredictions_body h vpOutputLayer)
                (replicate numNeuronsOutputLayer None)) (\<lambda>allPredictionsforDigits.
     maxScan allPredictionsforDigits (length vpOutputLayer))"

section \<open>Random.h\<close>

text \<open>
  Modelled from the spec: \<open>std::mt19937\<close> and \<open>std::uniform_int_distribution\<close> of the C++
  standard library, which \<open>random::u\<close> calls and which are not among the sources. The
  state of a generator is the sequence of 32-bit words it is still going to produce;
  \<open>generate\<close> takes the next one. \<open>uniform_int_distribution a b\<close>, which requires
  \<open>a \<le> b\<close>, draws from the generator and returns an integer of the closed interval from
  \<open>a\<close> to \<open>b\<close>; how the library maps the words drawn to that interval is
  implementation-defined, the model takes one word modulo the size of the interval.
\<close>

type_synonym mt19937 = "nat \<Rightarrow> 32 word"

definition generate :: "mt19937 \<Rightarrow> 32 word \<times> mt19937" where
  "generate g = (g 0, \<lambda>n. g (Suc n))"

definition uniform_int_distribution :: "int \<Rightarrow> int \<Rightarrow> mt19937 \<Rightarrow> fault + int \<times> mt19937" where
  "uniform_int_distribution a b g =
     (if b < a then Inl DistributionBounds
      else case generate g of (w, g') \<Rightarrow> Inr (a + int (unat w) mod (b - a + 1), g'))"

text \<open>
  \<open>random::u\<close> (lines 28 to 34), for an integer type \<open>T\<close> wide enough for the bounds.
  The generator is a \<open>static thread_local\<close> variable, seeded from the clock and the
  thread at the first call: its state is a parameter, and the state the call leaves is
  returned with the number. The parameters \<open>min\<close> and \<open>max\<close> of the source are \<open>lo\<close> and
  \<open>hi\<close> here.
\<close>

definition u :: "int \<Rightarrow> int \<Rightarrow> mt19937 \<Rightarrow> fault + int \<times> mt19937" where
  "u lo hi generator = uniform_int_distribution lo hi generator"

section \<open>Notions the statements use\<close>

text \<open>The activation and the weights of the neuron behind a pointer.\<close>

definition valueOf :: "store \<Rightarrow> ptr_neuron_t \<Rightarrow> real" where
  "valueOf h p = nodeValue (the (h p))"

definition weightOf :: "store \<Rightarrow> ptr_neuron_t \<Rightarrow> nat \<Rightarrow> real" where
  "weightOf h p j = weights (the (h p)) ! j"

text \<open>
  The output activations of the spec's tie-break example, \<open>[0.5, 0.9, 0.9, 0.1]\<close>, as four
  output neurons at the addresses 0 to 3.
\<close>

definition tie_outputs :: store where
  "tie_outputs =
     [0 \<mapsto> \<lparr>nodeValue = 0.5, weights = []\<rparr>,
      1 \<mapsto> \<lparr>nodeValue = 0.9, weights = []\<rparr>,
      2 \<mapsto> \<lparr>nodeValue = 0.9, weights = []\<rparr>,
      3 \<mapsto> \<lparr>nodeValue = 0.1, weights = []\<rparr>]"

text \<open>
  A layer is usable with fan-out \<open>n\<close> when none of its pointers is null and every
  neuron's weight row has at least \<open>n\<close> entries.
\<close>

definition valid_layer :: "store \<Rightarrow> ptr_neuron_t list \<Rightarrow> nat \<Rightarrow> bool" where
  "valid_layer h L n =
     list_all (\<lambda>p. case h p of None \<Rightarrow> False | Some c \<Rightarrow> n \<le> length (weights c)) L"

text \<open>
  A layer is within bounds when the activation and every weight of each of its neurons
  has a magnitude of at most \<open>2 ^ 30\<close>. For layers and error values within these bounds
  no operation of \<open>dotProd\<close> (with at most \<open>2 ^ 20\<close> upstream neurons) or of
  \<open>backPropagate\<close> has a result beyond the largest \<open>float\<close> or \<open>double\<close>: the lemmas
  \<open>dotProd_no_overflow\<close> and \<open>backPropagate_no_overflow\<close>.
\<close>

definition bounded_layer :: "store \<Rightarrow> ptr_neuron_t list \<Rightarrow> bool" where
  "bounded_layer h L =
     list_all (\<lambda>p. case h p of None \<Rightarrow> True
                    | Some c \<Rightarrow> \<bar>nodeValue c\<bar> \<le> 2 ^ 30 \<and> list_all (\<lambda>w. \<bar>w\<bar> \<le> 2 ^ 30) (weights c)) L"

text \<open>
  The raw input of downstream neuron \<open>j\<close> as \<open>dotProd\<close> accumulates it: starting from 0,
  for each upstream neuron in the order of the layer, the \<open>float\<close> product of its weight
  \<open>j\<close> and its activation is added in \<open>float\<close>.
\<close>

definition rawInput :: "store \<Rightarrow> ptr_neuron_t list \<Rightarrow> nat \<Rightarrow> real" where
  "rawInput h vpLayerA j =
     foldl (\<lambda>value a. fadd value (fmul (weightOf h a j) (valueOf h a))) 0 vpLayerA"

text \<open>
  The error pulled back through the first \<open>n\<close> weights of the neuron behind \<open>p\<close>, as the
  first loop nest of \<open>backPropagate\<close> accumulates it in the \<open>double nodeVal\<close>; and the
  hidden delta it stores for hidden neuron \<open>i\<close>: the pulled-back error times the sigmoid
  of the stored activation (a \<open>double\<close> product), times one minus that sigmoid (a
  \<open>float\<close>), converted to \<open>float\<close>.
\<close>

definition pulledError :: "store \<Rightarrow> ptr_neuron_t \<Rightarrow> real list \<Rightarrow> nat \<Rightarrow> real" where
  "pulledError h p resultErrorRate n =
     foldl (\<lambda>nodeVal k. dadd nodeVal (dmul (weightOf h p k) (resultErrorRate ! k))) 0 [0..<n]"

definition hiddenDelta ::
  "format \<Rightarrow> store \<Rightarrow> ptr_neuron_t list \<Rightarrow> nat \<Rightarrow> real list \<Rightarrow> nat \<Rightarrow> real" where
  "hiddenDelta fmt h vpLayerB n resultErrorRate i =
     float_of_double
       (dmul (dmul (pulledError h (vpLayerB ! i) resultErrorRate n)
                   (applySigmoidFunction fmt (valueOf h (vpLayerB ! i))))
             (fsub 1 (applySigmoidFunction fmt (valueOf h (vpLayerB ! i)))))"

text \<open>
  Adding \<open>d j\<close>, in \<open>float\<close>, to the first \<open>n\<close> entries of a weight row; the same for the
  neuron behind a pointer; and for the first \<open>m\<close> neurons of a layer in turn, neuron \<open>i\<close>
  with the increments \<open>D i\<close>.
\<close>

definition add_row :: "real list \<Rightarrow> (nat \<Rightarrow> real) \<Rightarrow> nat \<Rightarrow> real list" where
  "add_row ws d n = map (\<lambda>j. if j < n then fadd (ws ! j) (d j) else ws ! j) [0..<length ws]"

definition add_to_row :: "store \<Rightarrow> ptr_neuron_t \<Rightarrow> (nat \<Rightarrow> real) \<Rightarrow> nat \<Rightarrow> store" where
  "add_to_row h p d n =
     (case h p of None \<Rightarrow> h | Some c \<Rightarrow> h(p \<mapsto> c\<lparr>weights := add_row (weights c) d n\<rparr>))"

definition add_rows ::
  "store \<Rightarrow> ptr_neuron_t list \<Rightarrow> (nat \<Rightarrow> nat \<Rightarrow> real) \<Rightarrow> nat \<Rightarrow> nat \<Rightarrow> store" where
  "add_rows h L D n m = fold (\<lambda>i h'. add_to_row h' (L ! i) (D i) n) [0..<m] h"

text \<open>What a weight update cannot change of a neuron: its activation and the length of its row.\<close>

definition shape :: "store \<Rightarrow> ptr_neuron_t \<Rightarrow> (real \<times> nat) option" where
  "shape h p = map_option (\<lambda>c. (nodeValue c, length (weights c))) (h p)"

text \<open>
  A network of one input neuron (address 0, activation 1, weight 3), one hidden neuron
  (address 1, activation 0, weight 2) and one output neuron (address 2, activation 1/2),
  used to run the definitions on a concrete input.
\<close>

definition tiny_net :: store where
  "tiny_net =
     [0 \<mapsto> \<lparr>nodeValue = 1, weights = [3]\<rparr>,
      1 \<mapsto> \<lparr>nodeValue = 0, weights = [2]\<rparr>,
      2 \<mapsto> \<lparr>nodeValue = 1 / 2, weights = []\<rparr>]"

text \<open>The same network with the hidden activation 1 instead of 0.\<close>

definition tiny_net_active :: store where
  "tiny_net_active = tiny_net(1 \<mapsto> \<lparr>nodeValue = 1, weights = [2]\<rparr>)"

text \<open>The same network with the hidden activation 1 and the hidden weight \<open>2 ^ 24\<close>.\<close>

definition heavy_net :: store where
  "heavy_net = tiny_net(1 \<mapsto> \<lparr>nodeValue = 1, weights = [16777216]\<rparr>)"

text \<open>
  Three upstream neurons (addresses 0 to 2) with activation 1 and the weights \<open>2 ^ 24\<close>,
  1 and \<open>- 2 ^ 24\<close>, and one downstream neuron (address 3).
\<close>

definition cancel_net :: store where
  "cancel_net =
     [0 \<mapsto> \<lparr>nodeValue = 1, weights = [16777216]\<rparr>,
      1 \<mapsto> \<lparr>nodeValue = 1, weights = [1]\<rparr>,
      2 \<mapsto> \<lparr>nodeValue = 1, weights = [- 16777216]\<rparr>,
      3 \<mapsto> \<lparr>nodeValue = 0, weights = []\<rparr>]"

text \<open>A hidden neuron (address 1) with eleven outgoing weights, for an output layer of eleven.\<close>

definition wide_net :: store where
  "wide_net = [1 \<mapsto> \<lparr>nodeValue = 0, weights = replicate 11 0\<rparr>]"

section \<open>Rounding\<close>

lemma round_ties_even_near:
  assumes "0 \<le> r" and "r < 1 / 2"
  shows "round_ties_even (of_int n + r) = n"
proof -
  have "\<lfloor>of_int n + r\<rfloor> = n" using assms by (intro floor_unique) simp_all
  then show ?thesis using assms by (simp add: round_ties_even_def Let_def)
qed

lemma round_ties_even_up:
  assumes "1 / 2 < r" and "r < 1"
  shows "round_ties_even (of_int n + r) = n + 1"
proof -
  have "\<lfloor>of_int n + r\<rfloor> = n" using assms by (intro floor_unique) simp_all
  then show ?thesis using assms by (simp add: round_ties_even_def Let_def)
qed

lemma round_ties_even_tie:
  "round_ties_even (of_int n + 1 / 2) = (if even n then n else n + 1)"
proof -
  have "\<lfloor>of_int n + 1 / 2 :: real\<rfloor> = n" by (intro floor_unique) simp_all
  then show ?thesis by (simp add: round_ties_even_def Let_def)
qed

lemma round_ties_even_int [simp]: "round_ties_even (of_int n) = n"
  using round_ties_even_near [of 0 n] by simp

lemma round_ties_even_bounds: "\<lfloor>x\<rfloor> \<le> round_ties_even x \<and> round_ties_even x \<le> \<lfloor>x\<rfloor> + 1"
  by (simp add: round_ties_even_def Let_def)

lemma round_ties_even_mono:
  assumes "x \<le> y"
  shows "round_ties_even x \<le> round_ties_even y"
proof (cases "\<lfloor>x\<rfloor> = \<lfloor>y\<rfloor>")
  case True
  then show ?thesis using assms by (auto simp: round_ties_even_def Let_def)
next
  case False
  have "\<lfloor>x\<rfloor> \<le> \<lfloor>y\<rfloor>" using assms by (rule floor_mono)
  with False have "\<lfloor>x\<rfloor> + 1 \<le> \<lfloor>y\<rfloor>" by simp
  then show ?thesis
    using round_ties_even_bounds [of x] round_ties_even_bounds [of y] by linarith
qed

lemma round_ties_even_minus: "round_ties_even (- x) = - round_ties_even x"
proof (cases "x = of_int \<lfloor>x\<rfloor>")
  case True
  then obtain n where x: "x = of_int n" by blast
  have "- x = of_int (- n)" by (simp add: x)
  then have "round_ties_even (- x) = - n" by (simp only: round_ties_even_int)
  then show ?thesis by (simp add: x)
next
  case False
  define n where "n = \<lfloor>x\<rfloor>"
  define r where "r = x - of_int n"
  have r: "0 < r" "r < 1" using False by (simp_all add: r_def n_def) linarith+
  have x: "x = of_int n + r" by (simp add: r_def)
  have mx: "- x = of_int (- n - 1) + (1 - r)" by (simp add: x)
  consider "r < 1 / 2" | "r = 1 / 2" | "1 / 2 < r" by linarith
  then show ?thesis
  proof cases
    case 1
    have "round_ties_even x = n" unfolding x using r 1 by (intro round_ties_even_near) simp_all
    moreover have "round_ties_even (- x) = (- n - 1) + 1"
      unfolding mx using r 1 by (intro round_ties_even_up) simp_all
    ultimately show ?thesis by simp
  next
    case 2
    have a: "round_ties_even x = (if even n then n else n + 1)"
      unfolding x 2 by (rule round_ties_even_tie)
    have "- x = of_int (- n - 1) + 1 / 2" unfolding mx 2 by simp
    then have "round_ties_even (- x) = (if even (- n - 1) then - n - 1 else - n - 1 + 1)"
      by (simp only: round_ties_even_tie)
    then show ?thesis using a by auto
  next
    case 3
    have "round_ties_even x = n + 1" unfolding x using r 3 by (intro round_ties_even_up) simp_all
    moreover have "round_ties_even (- x) = - n - 1"
      unfolding mx using r 3 by (intro round_ties_even_near) simp_all
    ultimately show ?thesis by simp
  qed
qed

lemma quantum_pos [simp]: "0 < quantum fmt x"
  by (simp add: quantum_def)

lemma quantum_nonneg [simp]: "0 \<le> quantum fmt x"
  by (simp add: quantum_def)

lemma quantum_minus [simp]: "quantum fmt (- x) = quantum fmt x"
  by (simp add: quantum_def)

lemma fl_0 [simp]: "fl fmt 0 = 0"
  by (simp add: fl_def)

lemma fl_minus: "fl fmt (- x) = - fl fmt x"
  by (simp add: fl_def round_ties_even_minus)

lemma pow2_scale:
  assumes "1 \<le> p"
  shows "(2 :: real) powr of_int k / 2 powr of_int (k - (int p - 1)) = of_int (2 ^ (p - 1))"
proof -
  have "(2 :: real) powr of_int k / 2 powr of_int (k - (int p - 1))
          = 2 powr (of_int k - of_int (k - (int p - 1)))"
    by (rule powr_diff [symmetric])
  also have "of_int k - of_int (k - (int p - 1)) = real (p - 1)"
    using assms by (simp add: of_nat_diff)
  also have "(2 :: real) powr real (p - 1) = 2 ^ (p - 1)"
    by (rule powr_realpow) simp
  finally show ?thesis by simp
qed

lemma fl_pos:
  assumes "0 < x"
  shows "fl fmt x = of_int (round_ties_even (x / quantum fmt x)) * quantum fmt x"
  using assms by (simp add: fl_def)

lemma log_floor_bounds:
  assumes "0 < (x :: real)"
  shows "2 powr of_int \<lfloor>log 2 x\<rfloor> \<le> x" and "x < 2 powr of_int (\<lfloor>log 2 x\<rfloor> + 1)"
  using floor_log_eq_powr_iff [of x 2 "\<lfloor>log 2 x\<rfloor>"] assms by simp_all

lemma fl_nonneg:
  assumes "0 \<le> x"
  shows "0 \<le> fl fmt x"
proof (cases "x = 0")
  case True
  then show ?thesis by simp
next
  case False
  then have x: "0 < x" using assms by simp
  have "0 \<le> x / quantum fmt x" using assms by (intro divide_nonneg_nonneg) simp_all
  then have "round_ties_even 0 \<le> round_ties_even (x / quantum fmt x)"
    by (rule round_ties_even_mono)
  then have "0 \<le> round_ties_even (x / quantum fmt x)"
    using round_ties_even_int [of 0] by simp
  then show ?thesis unfolding fl_pos [OF x] by simp
qed

text \<open>A positive number in a normal binade stays in the closure of that binade.\<close>

lemma fl_binade:
  assumes p: "1 \<le> precision fmt" and x: "0 < x" and k: "emin fmt \<le> \<lfloor>log 2 x\<rfloor>"
  shows "2 powr of_int \<lfloor>log 2 x\<rfloor> \<le> fl fmt x"
    and "fl fmt x \<le> 2 powr of_int (\<lfloor>log 2 x\<rfloor> + 1)"
proof -
  define k where "k = \<lfloor>log 2 x\<rfloor>"
  define q where "q = (2 :: real) powr of_int (k - (int (precision fmt) - 1))"
  define N :: int where "N = 2 ^ (precision fmt - 1)"
  have qx: "quantum fmt x = q"
    using k x by (simp add: quantum_def q_def k_def max_def)
  have q0: "0 < q" by (simp add: q_def)
  have kq: "2 powr of_int k / q = of_int N"
    unfolding q_def N_def by (rule pow2_scale [OF p])
  have k1q: "2 powr of_int (k + 1) / q = of_int (2 * N)"
  proof -
    have "(2 :: real) powr of_int (k + 1) = 2 * 2 powr of_int k"
      by (simp add: powr_add)
    then show ?thesis using kq by simp
  qed
  have lo: "2 powr of_int k \<le> x" and hi: "x < 2 powr of_int (k + 1)"
    using log_floor_bounds [OF x] by (simp_all add: k_def)
  have "of_int N \<le> x / q"
    unfolding kq [symmetric] using lo q0 by (simp add: divide_right_mono)
  then have "round_ties_even (of_int N) \<le> round_ties_even (x / q)"
    by (rule round_ties_even_mono)
  then have 1: "N \<le> round_ties_even (x / q)" by simp
  have "x / q \<le> of_int (2 * N)"
    unfolding k1q [symmetric] using hi q0 by (simp add: divide_right_mono)
  then have "round_ties_even (x / q) \<le> round_ties_even (of_int (2 * N))"
    by (rule round_ties_even_mono)
  then have 2: "round_ties_even (x / q) \<le> 2 * N" by (simp only: round_ties_even_int)
  have flx: "fl fmt x = of_int (round_ties_even (x / q)) * q"
    using fl_pos [OF x] by (simp add: qx)
  have "2 powr of_int k = of_int N * q" using kq q0 by (simp add: field_simps)
  also have "\<dots> \<le> of_int (round_ties_even (x / q)) * q"
    using 1 q0 by (intro mult_right_mono) simp_all
  finally show "2 powr of_int \<lfloor>log 2 x\<rfloor> \<le> fl fmt x" by (simp add: flx k_def)
  have "of_int (round_ties_even (x / q)) * q \<le> of_int (2 * N) * q"
  proof (rule mult_right_mono)
    show "real_of_int (round_ties_even (x / q)) \<le> real_of_int (2 * N)"
      using 2 by (simp only: of_int_le_iff)
    show "0 \<le> q" using q0 by simp
  qed
  also have "\<dots> = 2 powr of_int (k + 1)" using k1q q0 by (simp add: field_simps)
  finally show "fl fmt x \<le> 2 powr of_int (\<lfloor>log 2 x\<rfloor> + 1)" by (simp add: flx k_def)
qed

text \<open>A positive number below the normal range stays below it.\<close>

lemma fl_subnormal:
  assumes p: "1 \<le> precision fmt" and x: "0 < x" and k: "\<lfloor>log 2 x\<rfloor> < emin fmt"
  shows "fl fmt x \<le> 2 powr of_int (emin fmt)"
proof -
  define q where "q = (2 :: real) powr of_int (emin fmt - (int (precision fmt) - 1))"
  define N :: int where "N = 2 ^ (precision fmt - 1)"
  have qx: "quantum fmt x = q"
    using k x by (simp add: quantum_def q_def max_def)
  have q0: "0 < q" by (simp add: q_def)
  have kq: "2 powr of_int (emin fmt) / q = of_int N"
    unfolding q_def N_def by (rule pow2_scale [OF p])
  have "x < 2 powr of_int (\<lfloor>log 2 x\<rfloor> + 1)" by (rule log_floor_bounds [OF x])
  also have "\<dots> \<le> 2 powr of_int (emin fmt)"
    using k by (intro powr_mono) simp_all
  finally have hi: "x \<le> 2 powr of_int (emin fmt)" by simp
  have "x / q \<le> of_int N"
    unfolding kq [symmetric] using hi q0 by (simp add: divide_right_mono)
  then have "round_ties_even (x / q) \<le> round_ties_even (of_int N)"
    by (rule round_ties_even_mono)
  then have 2: "round_ties_even (x / q) \<le> N" by (simp only: round_ties_even_int)
  have flx: "fl fmt x = of_int (round_ties_even (x / q)) * q"
    using fl_pos [OF x] by (simp add: qx)
  have "of_int (round_ties_even (x / q)) * q \<le> of_int N * q"
    using 2 q0 by (intro mult_right_mono) simp_all
  also have "\<dots> = 2 powr of_int (emin fmt)" using kq q0 by (simp add: field_simps)
  finally show ?thesis by (simp add: flx)
qed

lemma fl_mono_pos:
  assumes p: "1 \<le> precision fmt" and x: "0 < x" and xy: "x \<le> y"
  shows "fl fmt x \<le> fl fmt y"
proof -
  have y: "0 < y" using x xy by simp
  define kx where "kx = \<lfloor>log 2 x\<rfloor>"
  define ky where "ky = \<lfloor>log 2 y\<rfloor>"
  have kxy: "kx \<le> ky"
    unfolding kx_def ky_def using x xy by (intro floor_mono) simp
  show ?thesis
  proof (cases "max kx (emin fmt) = max ky (emin fmt)")
    case True
    then have q: "quantum fmt x = quantum fmt y"
      using x y by (simp add: quantum_def kx_def ky_def)
    have "x / quantum fmt y \<le> y / quantum fmt y"
      using xy by (intro divide_right_mono) simp_all
    then have "round_ties_even (x / quantum fmt y) \<le> round_ties_even (y / quantum fmt y)"
      by (rule round_ties_even_mono)
    then show ?thesis
      unfolding fl_pos [OF x] fl_pos [OF y] q
      by (intro mult_right_mono) simp_all
  next
    case False
    with kxy have ky: "emin fmt < ky" "kx < ky" by (auto simp: max_def split: if_splits)
    have lo: "2 powr of_int ky \<le> fl fmt y"
      using fl_binade(1) [OF p y] ky(1) by (simp add: ky_def)
    have "fl fmt x \<le> 2 powr of_int ky"
    proof (cases "emin fmt \<le> kx")
      case True
      have "fl fmt x \<le> 2 powr of_int (kx + 1)"
        using fl_binade(2) [OF p x] True by (simp add: kx_def)
      also have "\<dots> \<le> 2 powr of_int ky" using ky(2) by (intro powr_mono) simp_all
      finally show ?thesis .
    next
      case False
      then have "fl fmt x \<le> 2 powr of_int (emin fmt)"
        using fl_subnormal [OF p x] by (simp add: kx_def)
      also have "\<dots> \<le> 2 powr of_int ky" using ky(1) by (intro powr_mono) simp_all
      finally show ?thesis .
    qed
    with lo show ?thesis by simp
  qed
qed

lemma fl_mono:
  assumes p: "1 \<le> precision fmt" and xy: "x \<le> y"
  shows "fl fmt x \<le> fl fmt y"
proof -
  consider "0 < x" | "x \<le> 0" "0 \<le> y" | "y < 0" using xy by linarith
  then show ?thesis
  proof cases
    case 1
    then show ?thesis using fl_mono_pos [OF p _ xy] by simp
  next
    case 2
    have "0 \<le> fl fmt (- x)" using 2(1) by (intro fl_nonneg) simp
    then have "fl fmt x \<le> 0" by (simp add: fl_minus)
    also have "0 \<le> fl fmt y" using 2(2) by (rule fl_nonneg)
    finally show ?thesis .
  next
    case 3
    have "fl fmt (- y) \<le> fl fmt (- x)"
      using 3 xy by (intro fl_mono_pos [OF p]) simp_all
    then show ?thesis by (simp add: fl_minus)
  qed
qed

lemma fl_at:
  assumes p: "1 \<le> precision fmt" and k: "emin fmt \<le> k"
    and lo: "2 powr of_int k \<le> \<bar>x\<bar>" and hi: "\<bar>x\<bar> < 2 powr of_int (k + 1)"
    and q: "q = 2 powr of_int (k - (int (precision fmt) - 1))"
  shows "fl fmt x = of_int (round_ties_even (x / q)) * q"
proof -
  have x0: "0 < \<bar>x\<bar>"
  proof -
    have "(0 :: real) < 2 powr of_int k" by simp
    with lo show ?thesis by linarith
  qed
  have "\<lfloor>log 2 \<bar>x\<bar>\<rfloor> = k"
    using floor_log_eq_powr_iff [of "\<bar>x\<bar>" 2 k] x0 lo hi by simp
  then have "quantum fmt x = q" using k by (simp add: quantum_def q max_def)
  moreover have "x \<noteq> 0" using x0 by simp
  ultimately show ?thesis by (simp add: fl_def)
qed

lemma fl_pow2:
  assumes p: "1 \<le> precision fmt" and k: "emin fmt \<le> k"
  shows "fl fmt (2 powr of_int k) = 2 powr of_int k"
proof -
  define q where "q = (2 :: real) powr of_int (k - (int (precision fmt) - 1))"
  have q0: "0 < q" by (simp add: q_def)
  have kq: "2 powr of_int k / q = of_int (2 ^ (precision fmt - 1))"
    unfolding q_def by (rule pow2_scale [OF p])
  have "(2 :: real) powr of_int k < 2 powr of_int (k + 1)"
    by (intro powr_less_mono) simp_all
  then have "fl fmt (2 powr of_int k) = of_int (round_ties_even (2 powr of_int k / q)) * q"
    using p k by (intro fl_at [where k = k]) (simp_all add: q_def)
  also have "\<dots> = of_int (2 ^ (precision fmt - 1)) * q"
    unfolding kq by (simp only: round_ties_even_int)
  also have "\<dots> = 2 powr of_int k" using kq q0 by (simp add: field_simps)
  finally show ?thesis .
qed

text \<open>Numbers whose significand fits the precision are not changed.\<close>

lemma fl_exact:
  assumes p: "1 \<le> precision fmt" and n: "\<bar>n\<bar> < 2 ^ precision fmt"
    and e: "emin fmt - (int (precision fmt) - 1) \<le> e"
  shows "fl fmt (of_int n * 2 powr of_int e) = of_int n * 2 powr of_int e"
proof (cases "n = 0")
  case True
  then show ?thesis by simp
next
  case False
  define x :: real where "x = of_int n * 2 powr of_int e"
  define k where "k = \<lfloor>log 2 \<bar>x\<bar>\<rfloor>"
  define e' where "e' = max k (emin fmt) - (int (precision fmt) - 1)"
  have ax: "\<bar>x\<bar> = of_int \<bar>n\<bar> * 2 powr of_int e" by (simp add: x_def abs_mult)
  have x0: "0 < \<bar>x\<bar>" using False by (simp add: x_def)
  have "of_int \<bar>n\<bar> < (2 :: real) ^ precision fmt"
  proof -
    have "of_int \<bar>n\<bar> < (of_int (2 ^ precision fmt) :: real)"
      using n by (simp only: of_int_less_iff)
    then show ?thesis by simp
  qed
  then have "\<bar>x\<bar> < 2 ^ precision fmt * 2 powr of_int e"
    unfolding ax by (intro mult_strict_right_mono) simp_all
  also have "(2 :: real) ^ precision fmt = 2 powr of_int (int (precision fmt))"
    by (simp add: powr_realpow)
  also have "2 powr of_int (int (precision fmt)) * 2 powr of_int e
               = (2 :: real) powr of_int (int (precision fmt) + e)"
    by (simp add: powr_add)
  finally have up: "\<bar>x\<bar> < 2 powr of_int (int (precision fmt) + e)" .
  have "2 powr of_int k \<le> \<bar>x\<bar>"
    using floor_log_eq_powr_iff [of "\<bar>x\<bar>" 2 k] x0 by (simp add: k_def)
  with up have "(2 :: real) powr of_int k < 2 powr of_int (int (precision fmt) + e)"
    by linarith
  then have "k < int (precision fmt) + e"
    by (simp only: powr_less_cancel_iff of_int_less_iff)
  then have ee: "e' \<le> e" using e by (simp add: e'_def max_def)
  define d where "d = nat (e - e')"
  have de: "e = e' + int d" using ee by (simp add: d_def)
  have "(2 :: real) powr of_int e = 2 powr of_int e' * 2 ^ d"
    unfolding de by (simp add: powr_add powr_realpow)
  then have xq: "x / 2 powr of_int e' = of_int (n * 2 ^ d)"
    by (simp add: x_def)
  have "quantum fmt x = 2 powr of_int e'"
    by (simp add: quantum_def e'_def k_def)
  moreover have "x \<noteq> 0" using x0 by simp
  ultimately have "fl fmt x = of_int (round_ties_even (x / 2 powr of_int e')) * 2 powr of_int e'"
    by (simp add: fl_def)
  also have "\<dots> = of_int (n * 2 ^ d) * 2 powr of_int e'"
    unfolding xq by (simp only: round_ties_even_int)
  also have "\<dots> = x" using xq by (simp add: field_simps)
  finally show ?thesis by (simp add: x_def)
qed

lemma fl_abs_le:
  assumes p: "1 \<le> precision fmt" and x: "\<bar>x\<bar> \<le> b" and b: "fl fmt b = b"
  shows "\<bar>fl fmt x\<bar> \<le> b"
proof -
  have "fl fmt x \<le> fl fmt b" using x by (intro fl_mono [OF p]) simp
  moreover have "fl fmt (- b) \<le> fl fmt x" using x by (intro fl_mono [OF p]) simp
  ultimately show ?thesis by (simp add: fl_minus b)
qed

lemma ieee_formats:
  assumes "fmt = binary32 \<or> fmt = binary64"
  shows "1 \<le> precision fmt" and "precision fmt \<le> 53" and "emin fmt \<le> - 64" and "0 \<le> emax fmt"
  using assms by (auto simp: binary32_def binary64_def)

lemma largest_less:
  assumes p: "1 \<le> precision fmt"
  shows "largest fmt < 2 powr of_int (emax fmt + 1)"
proof -
  define q where "q = (2 :: real) powr of_int (emax fmt - (int (precision fmt) - 1))"
  have q0: "0 < q" by (simp add: q_def)
  have "2 powr of_int (emax fmt) / q = of_int (2 ^ (precision fmt - 1))"
    unfolding q_def by (rule pow2_scale [OF p])
  then have "2 powr of_int (emax fmt) = 2 ^ (precision fmt - 1) * q"
    using q0 by (simp add: field_simps)
  then have "(2 :: real) powr of_int (emax fmt + 1) = 2 * 2 ^ (precision fmt - 1) * q"
    by (simp add: powr_add)
  also have "(2 :: real) * 2 ^ (precision fmt - 1) = 2 ^ precision fmt"
    using p by (cases "precision fmt") simp_all
  finally have "(2 :: real) powr of_int (emax fmt + 1) = 2 ^ precision fmt * q" .
  moreover have "largest fmt = (2 ^ precision fmt - 1) * q" by (simp add: largest_def q_def)
  moreover have "(2 ^ precision fmt - 1) * q < 2 ^ precision fmt * q"
    using q0 by (intro mult_strict_right_mono) simp_all
  ultimately show ?thesis by simp
qed

lemma largest_ge:
  assumes p: "1 \<le> precision fmt"
  shows "2 powr of_int (emax fmt) \<le> largest fmt"
proof -
  define q where "q = (2 :: real) powr of_int (emax fmt - (int (precision fmt) - 1))"
  have q0: "0 < q" by (simp add: q_def)
  have "2 powr of_int (emax fmt) / q = of_int (2 ^ (precision fmt - 1))"
    unfolding q_def by (rule pow2_scale [OF p])
  then have 1: "2 powr of_int (emax fmt) = 2 ^ (precision fmt - 1) * q"
    using q0 by (simp add: field_simps)
  have "(2 :: real) * 2 ^ (precision fmt - 1) = 2 ^ precision fmt"
    using p by (cases "precision fmt") simp_all
  moreover have "(1 :: real) \<le> 2 ^ (precision fmt - 1)" by simp
  ultimately have "(2 :: real) ^ (precision fmt - 1) \<le> 2 ^ precision fmt - 1" by linarith
  then have "2 ^ (precision fmt - 1) * q \<le> (2 ^ precision fmt - 1) * q"
    using q0 by (intro mult_right_mono) simp_all
  then show ?thesis unfolding 1 by (simp add: largest_def q_def)
qed

lemma fl_one:
  assumes "1 \<le> precision fmt" and "emin fmt \<le> 0"
  shows "fl fmt 1 = 1"
  using fl_pow2 [OF assms] by simp

lemma fl_two:
  assumes "1 \<le> precision fmt" and "emin fmt \<le> 1"
  shows "fl fmt 2 = 2"
  using fl_pow2 [OF assms] by simp

lemma fl_half:
  assumes "1 \<le> precision fmt" and "emin fmt \<le> - 1"
  shows "fl fmt (1 / 2) = 1 / 2"
  using fl_pow2 [OF assms] by (simp add: powr_minus_divide)

lemma fl_one_plus:
  assumes p: "1 \<le> precision fmt" and k: "emin fmt \<le> 0"
    and y: "0 \<le> y" "y < 1 / 2 ^ precision fmt"
  shows "fl fmt (1 + y) = 1"
proof -
  define N :: int where "N = 2 ^ (precision fmt - 1)"
  define q where "q = (2 :: real) powr of_int (0 - (int (precision fmt) - 1))"
  have q0: "0 < q" by (simp add: q_def)
  have "2 powr of_int 0 / q = of_int N" unfolding q_def N_def by (rule pow2_scale [OF p])
  then have qN: "1 / q = of_int N" by simp
  have pp: "(2 :: real) ^ precision fmt = 2 * of_int N"
    using p by (cases "precision fmt") (simp_all add: N_def)
  have "(1 :: real) / 2 ^ precision fmt \<le> 1" by simp
  then have y1: "y < 1" using y(2) by linarith
  have N0: "(0 :: real) < of_int N" by (simp add: N_def)
  have "y * of_int N < 1 / 2 ^ precision fmt * of_int N"
    using y(2) N0 by (intro mult_strict_right_mono)
  also have "\<dots> = 1 / 2" unfolding pp using N0 by simp
  finally have half: "y * of_int N < 1 / 2" .
  have nn: "0 \<le> y * of_int N" using y(1) N0 by simp
  have "(1 + y) / q = (1 + y) * (1 / q)" by simp
  also have "\<dots> = of_int N + y * of_int N" unfolding qN by (simp add: algebra_simps)
  finally have r: "round_ties_even ((1 + y) / q) = N"
    using round_ties_even_near [OF nn half, of N] by (simp only:)
  have "fl fmt (1 + y) = of_int (round_ties_even ((1 + y) / q)) * q"
    using p k y(1) y1 by (intro fl_at [where k = 0]) (simp_all add: q_def)
  also have "\<dots> = of_int N * q" by (simp only: r)
  also have "\<dots> = 1" using qN q0 by (simp add: field_simps)
  finally show ?thesis .
qed

lemma exp_minus_small:
  assumes "64 \<le> (x :: real)"
  shows "exp (- x) \<le> 1 / 2 ^ 64"
proof -
  have "(2 :: real) ^ 64 \<le> exp 1 ^ 64"
    using exp_ge_add_one_self [of "1 :: real"] by (intro power_mono) simp_all
  also have "\<dots> = exp (of_nat 64 * (1 :: real))" by (rule exp_of_nat_mult [symmetric])
  also have "\<dots> = exp (64 :: real)" by simp
  also have "\<dots> \<le> exp x" using assms by simp
  finally have "2 ^ 64 \<le> exp x" .
  then have "1 / exp x \<le> 1 / 2 ^ 64"
    by (intro divide_left_mono) simp_all
  then show ?thesis by (simp add: exp_minus inverse_eq_divide)
qed

lemma applySigmoidFunction_0:
  assumes "fmt = binary32 \<or> fmt = binary64"
  shows "applySigmoidFunction fmt 0 = 1 / 2"
proof -
  note f = ieee_formats [OF assms]
  have one: "fl fmt 1 = 1" using f by (intro fl_one) simp_all
  have two: "fl fmt 2 = 2" using f by (intro fl_two) simp_all
  have half: "fl fmt (1 / 2) = 1 / 2" using f by (intro fl_half) simp_all
  have half32: "fl binary32 (1 / 2) = 1 / 2" by (intro fl_half) (simp_all add: binary32_def)
  have "(1 :: real) \<le> 2 powr of_int (emax fmt)" using f(4) by (simp add: ge_one_powr_ge_zero)
  also have "\<dots> \<le> largest fmt" by (rule largest_ge [OF f(1)])
  finally have "\<not> largest fmt < 1" by simp
  then show ?thesis
    by (simp add: applySigmoidFunction_def Let_def one two half half32 float_of_double_def)
qed

lemma applySigmoidFunction_range:
  assumes "fmt = binary32 \<or> fmt = binary64"
  shows "0 \<le> applySigmoidFunction fmt x" and "applySigmoidFunction fmt x \<le> 1"
proof -
  note f = ieee_formats [OF assms]
  have one: "fl fmt 1 = 1" using f by (intro fl_one) simp_all
  have one32: "fl binary32 1 = 1" by (intro fl_one) (simp_all add: binary32_def)
  have p32: "1 \<le> precision binary32" by (simp add: binary32_def)
  define e where "e = fl fmt (exp (- x))"
  define s where "s = fl fmt (1 + e)"
  have e0: "0 \<le> e" unfolding e_def by (intro fl_nonneg) simp
  have "fl fmt 1 \<le> fl fmt (1 + e)" using e0 by (intro fl_mono [OF f(1)]) simp
  then have s1: "1 \<le> s" by (simp add: s_def one)
  have d0: "0 \<le> 1 / s" and d1: "1 / s \<le> 1" using s1 by simp_all
  have "0 \<le> fl fmt (1 / s)" using d0 by (rule fl_nonneg)
  then have r0: "0 \<le> fl binary32 (fl fmt (1 / s))" by (rule fl_nonneg)
  have "fl fmt (1 / s) \<le> fl fmt 1" using d1 by (rule fl_mono [OF f(1)])
  then have "fl fmt (1 / s) \<le> 1" by (simp add: one)
  then have "fl binary32 (fl fmt (1 / s)) \<le> fl binary32 1" by (rule fl_mono [OF p32])
  then have r1: "fl binary32 (fl fmt (1 / s)) \<le> 1" by (simp add: one32)
  show "0 \<le> applySigmoidFunction fmt x"
    using r0 by (simp add: applySigmoidFunction_def Let_def float_of_double_def e_def s_def)
  show "applySigmoidFunction fmt x \<le> 1"
    using r1 by (simp add: applySigmoidFunction_def Let_def float_of_double_def e_def s_def)
qed

lemma applySigmoidFunction_mono:
  assumes fmt: "fmt = binary32 \<or> fmt = binary64" and xy: "x \<le> y"
  shows "applySigmoidFunction fmt x \<le> applySigmoidFunction fmt y"
proof -
  note f = ieee_formats [OF fmt]
  have one: "fl fmt 1 = 1" using f by (intro fl_one) simp_all
  have p32: "1 \<le> precision binary32" by (simp add: binary32_def)
  define ex where "ex = fl fmt (exp (- x))"
  define ey where "ey = fl fmt (exp (- y))"
  have e: "ey \<le> ex" unfolding ex_def ey_def using xy by (intro fl_mono [OF f(1)]) simp
  have ey0: "0 \<le> ey" unfolding ey_def by (intro fl_nonneg) simp
  show ?thesis
  proof (cases "largest fmt < ex")
    case True
    then have "applySigmoidFunction fmt x = 0"
      by (simp add: applySigmoidFunction_def Let_def ex_def)
    then show ?thesis using applySigmoidFunction_range(1) [OF fmt, of y] by simp
  next
    case False
    then have ny: "\<not> largest fmt < ey" using e by simp
    have "fl fmt 1 \<le> fl fmt (1 + ey)" using ey0 by (intro fl_mono [OF f(1)]) simp
    then have sy: "1 \<le> fl fmt (1 + ey)" by (simp add: one)
    have "fl fmt (1 + ey) \<le> fl fmt (1 + ex)" using e by (intro fl_mono [OF f(1)]) simp
    then have "1 / fl fmt (1 + ex) \<le> 1 / fl fmt (1 + ey)"
      using sy by (intro divide_left_mono) simp_all
    then have "fl fmt (1 / fl fmt (1 + ex)) \<le> fl fmt (1 / fl fmt (1 + ey))"
      by (rule fl_mono [OF f(1)])
    then have "fl binary32 (fl fmt (1 / fl fmt (1 + ex)))
                 \<le> fl binary32 (fl fmt (1 / fl fmt (1 + ey)))"
      by (rule fl_mono [OF p32])
    then show ?thesis
      using False ny
      by (simp add: applySigmoidFunction_def Let_def float_of_double_def ex_def ey_def)
  qed
qed

lemma applySigmoidFunction_saturates:
  assumes fmt: "fmt = binary32 \<or> fmt = binary64" and x: "64 \<le> x"
  shows "applySigmoidFunction fmt x = 1"
proof -
  note f = ieee_formats [OF fmt]
  have one: "fl fmt 1 = 1" using f by (intro fl_one) simp_all
  have one32: "fl binary32 1 = 1" by (intro fl_one) (simp_all add: binary32_def)
  define e where "e = fl fmt (exp (- x))"
  have e0: "0 \<le> e" unfolding e_def by (intro fl_nonneg) simp
  have small: "fl fmt (2 powr of_int (- 64)) = 2 powr of_int (- 64)"
    using f by (intro fl_pow2) simp_all
  have p64: "(2 :: real) powr of_int (- 64) = 1 / 2 ^ 64"
    by (simp add: powr_minus_divide)
  have "e \<le> fl fmt (1 / 2 ^ 64)"
    unfolding e_def using exp_minus_small [OF x] by (rule fl_mono [OF f(1)])
  then have e64: "e \<le> 1 / 2 ^ 64" using small by (simp only: p64)
  also have "(1 :: real) / 2 ^ 64 < 1 / 2 ^ 53" by simp
  also have "(1 :: real) / 2 ^ 53 \<le> 1 / 2 ^ precision fmt"
    using f(2) by (intro divide_left_mono power_increasing) simp_all
  finally have "e < 1 / 2 ^ precision fmt" .
  with f e0 have s: "fl fmt (1 + e) = 1" by (intro fl_one_plus) simp_all
  have "(1 :: real) \<le> 2 powr of_int (emax fmt)" using f(4) by (simp add: ge_one_powr_ge_zero)
  also have "\<dots> \<le> largest fmt" by (rule largest_ge [OF f(1)])
  finally have "1 \<le> largest fmt" .
  then have "\<not> largest fmt < e" using e64 by simp
  then show ?thesis
    by (simp add: applySigmoidFunction_def Let_def float_of_double_def e_def [symmetric] s
        one one32)
qed

lemma applySigmoidFunction_underflows:
  assumes fmt: "fmt = binary32 \<or> fmt = binary64" and x: "x \<le> - 2000"
  shows "applySigmoidFunction fmt x = 0"
proof -
  note f = ieee_formats [OF fmt]
  have "(2 :: real) ^ 2000 \<le> exp 1 ^ 2000"
    using exp_ge_add_one_self [of "1 :: real"] by (intro power_mono) simp_all
  also have "\<dots> = exp (of_nat 2000 * (1 :: real))" by (rule exp_of_nat_mult [symmetric])
  also have "\<dots> = exp (2000 :: real)" by simp
  also have "\<dots> \<le> exp (- x)" using x by simp
  finally have big: "2 powr of_int 2000 \<le> exp (- x)" by (simp add: powr_realpow)
  have "emax fmt + 1 \<le> 2000" using fmt by (auto simp: binary32_def binary64_def)
  then have "(2 :: real) powr of_int (emax fmt + 1) \<le> 2 powr of_int 2000"
    by (intro powr_mono) simp_all
  with largest_less [OF f(1)] have "largest fmt < 2 powr of_int 2000" by linarith
  also have "2 powr of_int 2000 = fl fmt (2 powr of_int 2000)"
    using f by (intro fl_pow2 [symmetric]) simp_all
  also have "\<dots> \<le> fl fmt (exp (- x))" using big by (rule fl_mono [OF f(1)])
  finally show ?thesis by (simp add: applySigmoidFunction_def Let_def)
qed

lemma fl_exactI:
  assumes "1 \<le> precision fmt" and "\<bar>n\<bar> < 2 ^ precision fmt"
    and "emin fmt - (int (precision fmt) - 1) \<le> e" and "x = of_int n * 2 powr of_int e"
  shows "fl fmt x = x"
  unfolding assms(4) using assms(1-3) by (rule fl_exact)

lemma fl_round_down:
  assumes "1 \<le> precision fmt" and "emin fmt \<le> k"
    and "2 powr of_int k \<le> \<bar>x\<bar>" and "\<bar>x\<bar> < 2 powr of_int (k + 1)"
    and "q = 2 powr of_int (k - (int (precision fmt) - 1))"
    and "x / q = of_int n + r" and "0 \<le> r" and "r < 1 / 2"
  shows "fl fmt x = of_int n * q"
  using fl_at [OF assms(1-5)] round_ties_even_near [OF assms(7,8), of n]
  by (simp only: assms(6))

lemma fl_round_up:
  assumes "1 \<le> precision fmt" and "emin fmt \<le> k"
    and "2 powr of_int k \<le> \<bar>x\<bar>" and "\<bar>x\<bar> < 2 powr of_int (k + 1)"
    and "q = 2 powr of_int (k - (int (precision fmt) - 1))"
    and "x / q = of_int n + r" and "1 / 2 < r" and "r < 1"
  shows "fl fmt x = of_int (n + 1) * q"
  using fl_at [OF assms(1-5)] round_ties_even_up [OF assms(7,8), of n]
  by (simp only: assms(6))

lemma fl_round_tie:
  assumes "1 \<le> precision fmt" and "emin fmt \<le> k"
    and "2 powr of_int k \<le> \<bar>x\<bar>" and "\<bar>x\<bar> < 2 powr of_int (k + 1)"
    and "q = 2 powr of_int (k - (int (precision fmt) - 1))"
    and "x / q = of_int n + 1 / 2" and "even n"
  shows "fl fmt x = of_int n * q"
  using fl_at [OF assms(1-5)] round_ties_even_tie [of n] assms(7)
  by (simp only: assms(6) if_True)

lemma fl32_values:
  "fl binary32 1 = 1" "fl binary32 2 = 2" "fl binary32 3 = 3"
  "fl binary32 (1 / 2) = 1 / 2" "fl binary32 (1 / 4) = 1 / 4"
  "fl binary32 16777216 = 16777216" "fl binary32 (- 16777216) = - 16777216"
  "fl binary32 (13421773 / 268435456) = 13421773 / 268435456"
  "fl binary32 (13421773 / 536870912) = 13421773 / 536870912"
proof -
  show "fl binary32 1 = 1"
    by (rule fl_exactI [where n = 1 and e = 0]) (simp_all add: binary32_def)
  show "fl binary32 2 = 2"
    by (rule fl_exactI [where n = 2 and e = 0]) (simp_all add: binary32_def)
  show "fl binary32 3 = 3"
    by (rule fl_exactI [where n = 3 and e = 0]) (simp_all add: binary32_def)
  show "fl binary32 (1 / 2) = 1 / 2"
    by (rule fl_exactI [where n = 1 and e = "- 1"]) (simp_all add: binary32_def powr_minus_divide)
  show "fl binary32 (1 / 4) = 1 / 4"
    by (rule fl_exactI [where n = 1 and e = "- 2"]) (simp_all add: binary32_def powr_minus_divide)
  show a: "fl binary32 16777216 = 16777216"
    by (rule fl_exactI [where n = 1 and e = 24]) (simp_all add: binary32_def)
  show "fl binary32 (- 16777216) = - 16777216"
    using a by (simp only: fl_minus)
  show "fl binary32 (13421773 / 268435456) = 13421773 / 268435456"
    by (rule fl_exactI [where n = 13421773 and e = "- 28"])
       (simp_all add: binary32_def powr_minus_divide)
  show "fl binary32 (13421773 / 536870912) = 13421773 / 536870912"
    by (rule fl_exactI [where n = 13421773 and e = "- 29"])
       (simp_all add: binary32_def powr_minus_divide)
qed

lemma fl64_values:
  "fl binary64 1 = 1" "fl binary64 (1 / 2) = 1 / 2" "fl binary64 (1 / 4) = 1 / 4"
  "fl binary64 (13421773 / 268435456) = 13421773 / 268435456"
proof -
  show "fl binary64 1 = 1"
    by (rule fl_exactI [where n = 1 and e = 0]) (simp_all add: binary64_def)
  show "fl binary64 (1 / 2) = 1 / 2"
    by (rule fl_exactI [where n = 1 and e = "- 1"]) (simp_all add: binary64_def powr_minus_divide)
  show "fl binary64 (1 / 4) = 1 / 4"
    by (rule fl_exactI [where n = 1 and e = "- 2"]) (simp_all add: binary64_def powr_minus_divide)
  show "fl binary64 (13421773 / 268435456) = 13421773 / 268435456"
    by (rule fl_exactI [where n = 13421773 and e = "- 28"])
       (simp_all add: binary64_def powr_minus_divide)
qed

text \<open>The value of \<open>float learningRate = 0.1\<close>.\<close>

lemma learningRate_value: "learningRate = 13421773 / 134217728"
proof -
  have d: "fl binary64 (1 / 10) = 3602879701896397 / 36028797018963968"
    using fl_round_up [of binary64 "- 4" "1 / 10" "1 / 72057594037927936"
        7205759403792793 "3 / 5"]
    by (simp add: binary64_def powr_minus_divide)
  have "fl binary32 (3602879701896397 / 36028797018963968) = 13421773 / 134217728"
    using fl_round_up [of binary32 "- 4" "3602879701896397 / 36028797018963968"
        "1 / 134217728" 13421772 "214748365 / 268435456"]
    by (simp add: binary32_def powr_minus_divide)
  then show ?thesis by (simp add: learningRate_def float_of_double_def d)
qed

lemma learningRate_pos: "0 < learningRate"
  by (simp add: learningRate_value)

text \<open>Sums of \<open>float\<close> that are rounded.\<close>

lemma fadd_values:
  "fadd 16777216 1 = 16777216"
  "fadd 16777216 (13421773 / 268435456) = 16777216"
  "fadd 3 (13421773 / 536870912) = 6343885 / 2097152"
  "fadd 2 (13421773 / 268435456) = 8598323 / 4194304"
proof -
  show "fadd 16777216 1 = 16777216"
    using fl_round_tie [of binary32 24 "16777216 + 1" 2 8388608]
    by (simp add: fadd_def binary32_def)
  show "fadd 16777216 (13421773 / 268435456) = 16777216"
    using fl_round_down [of binary32 24 "16777216 + 13421773 / 268435456" 2 8388608
        "13421773 / 536870912"]
    by (simp add: fadd_def binary32_def)
  show "fadd 3 (13421773 / 536870912) = 6343885 / 2097152"
    using fl_round_up [of binary32 1 "3 + 13421773 / 536870912" "1 / 4194304" 12687769
        "77 / 128"]
    by (simp add: fadd_def binary32_def powr_minus_divide)
  show "fadd 2 (13421773 / 268435456) = 8598323 / 4194304"
    using fl_round_down [of binary32 1 "2 + 13421773 / 268435456" "1 / 4194304" 8598323
        "13 / 64"]
    by (simp add: fadd_def binary32_def powr_minus_divide)
qed

section \<open>Sequencing and loops\<close>

lemma andThen_simps [simp]:
  "andThen (Inr x) f = f x"
  "andThen (Inl e) f = Inl e"
  by (simp_all add: andThen_def)

lemma andThen_eq_Inr: "andThen m f = Inr y \<longleftrightarrow> (\<exists>x. m = Inr x \<and> f x = Inr y)"
  by (cases m) simp_all

lemma andThen_eq_Inl: "andThen m f = Inl e \<longleftrightarrow> (m = Inl e \<or> (\<exists>x. m = Inr x \<and> f x = Inl e))"
  by (cases m) simp_all

lemma forEach_append:
  "forEach (xs @ ys) body s = andThen (forEach xs body s) (forEach ys body)"
  by (induction xs arbitrary: s) (auto simp: andThen_def split: sum.splits)

lemma forEach_upt_rule:
  assumes "I 0 s"
    and "\<And>k t. k < n \<Longrightarrow> I k t \<Longrightarrow> \<exists>t'. body k t = Inr t' \<and> I (Suc k) t'"
  shows "\<exists>s'. forEach [0..<n] body s = Inr s' \<and> I n s'"
  using assms(2)
proof (induction n)
  case 0
  then show ?case using assms(1) by simp
next
  case (Suc n)
  have "\<exists>s'. forEach [0..<n] body s = Inr s' \<and> I n s'"
    by (rule Suc.IH) (simp add: Suc.prems)
  then obtain s1 where s1: "forEach [0..<n] body s = Inr s1" "I n s1" by blast
  from Suc.prems [of n s1] s1(2) obtain s2 where "body n s1 = Inr s2" "I (Suc n) s2" by auto
  with s1 show ?case by (simp add: forEach_append)
qed

lemma forEach_fault:
  "forEach is body s = Inl e \<Longrightarrow> \<exists>i\<in>set is. \<exists>t. body i t = Inl e"
  by (induction "is" arbitrary: s) (auto simp: andThen_eq_Inl)

section \<open>The predicted digit\<close>

lemma array_read_Some:
  "i < length a \<Longrightarrow> a ! i = Some v \<Longrightarrow> array_read a i = Inr v"
  by (simp add: array_read_def)

lemma maxScan_loop:
  assumes "n \<le> length a" and "\<forall>i<n. a ! i = Some (v i)"
  shows "\<exists>m number. forEach [0..<n] (maxScan_body a) (0, None) = Inr (m, number) \<and>
           (case number of
              None \<Rightarrow> (\<forall>i<n. v i < 0)
            | Some j \<Rightarrow> j < n \<and> v j = m \<and> (\<forall>i<n. v i \<le> v j) \<and> (\<forall>i<n. j < i \<longrightarrow> v i < v j))"
proof -
  define I where "I = (\<lambda>k (t :: real \<times> nat option). 0 \<le> fst t \<and>
      (case snd t of
         None \<Rightarrow> fst t = 0 \<and> (\<forall>i<k. v i < 0)
       | Some j \<Rightarrow> j < k \<and> v j = fst t \<and> (\<forall>i<k. v i \<le> v j) \<and> (\<forall>i<k. j < i \<longrightarrow> v i < v j)))"
  have "\<exists>s'. forEach [0..<n] (maxScan_body a) (0, None) = Inr s' \<and> I n s'"
  proof (rule forEach_upt_rule)
    show "I 0 (0, None)" by (simp add: I_def)
  next
    fix k t assume k: "k < n" and inv: "I k t"
    obtain m number where t: "t = (m, number)" by (cases t)
    have rd: "array_read a k = Inr (v k)"
      using k assms by (simp add: array_read_Some)
    show "\<exists>t'. maxScan_body a k t = Inr t' \<and> I (Suc k) t'"
    proof (cases "v k \<ge> m")
      case True
      have "maxScan_body a k t = Inr (v k, Some k)"
        using True by (simp add: maxScan_body_def t rd)
      moreover have "I (Suc k) (v k, Some k)"
        using inv True unfolding I_def t
        by (auto simp: less_Suc_eq split: option.splits)
      ultimately show ?thesis by blast
    next
      case False
      have "maxScan_body a k t = Inr (m, number)"
        using False by (simp add: maxScan_body_def t rd)
      moreover have "I (Suc k) (m, number)"
        using inv False unfolding I_def t
        by (auto simp: less_Suc_eq split: option.splits)
      ultimately show ?thesis by blast
    qed
  qed
  then obtain s' where s': "forEach [0..<n] (maxScan_body a) (0, None) = Inr s'" "I n s'" by blast
  obtain m number where mn: "s' = (m, number)" by (cases s')
  show ?thesis using s' unfolding mn I_def by (auto split: option.splits)
qed

lemma getNodeValue_valueOf: "h p \<noteq> None \<Longrightarrow> getNodeValue h p = Inr (valueOf h p)"
  by (auto simp: getNodeValue_def valueOf_def)

lemma allPredictions_loop:
  assumes "length C \<le> numNeuronsOutputLayer" and "\<forall>p\<in>set C. h p \<noteq> None"
  shows "\<exists>a. forEach [0..<length C] (allPredictions_body h C) (replicate numNeuronsOutputLayer None) = Inr a
           \<and> length a = numNeuronsOutputLayer \<and> (\<forall>i<length C. a ! i = Some (valueOf h (C ! i)))"
proof -
  define I where "I = (\<lambda>k (a :: real option list).
      length a = numNeuronsOutputLayer \<and> (\<forall>i<k. a ! i = Some (valueOf h (C ! i))))"
  have "\<exists>a. forEach [0..<length C] (allPredictions_body h C) (replicate numNeuronsOutputLayer None) = Inr a
           \<and> I (length C) a"
  proof (rule forEach_upt_rule)
    show "I 0 (replicate numNeuronsOutputLayer None)" by (simp add: I_def)
  next
    fix k a assume k: "k < length C" and inv: "I k a"
    have "h (C ! k) \<noteq> None" using k assms(2) by simp
    then have "allPredictions_body h C k a = Inr (a[k := Some (valueOf h (C ! k))])"
      using k inv assms(1)
      by (simp add: allPredictions_body_def getNodeValue_valueOf array_write_def I_def)
    moreover have "I (Suc k) (a[k := Some (valueOf h (C ! k))])"
      using inv k assms(1) by (auto simp: I_def less_Suc_eq nth_list_update)
    ultimately show "\<exists>t'. allPredictions_body h C k a = Inr t' \<and> I (Suc k) t'" by blast
  qed
  then show ?thesis by (simp add: I_def)
qed

text \<open>
  C5, as amended. When the output layer fits the prediction buffer and holds no null
  pointer, the scan returns; the digit it returns has a maximal output activation, and
  every later output neuron has a strictly smaller one: among equal maxima the scan keeps
  the last, because \<open>>=\<close> lets a later equal value replace the stored index. The digit
  stays unassigned only when every output activation is negative.
\<close>

theorem predictDigit_last_maximum:
  assumes "length C \<le> numNeuronsOutputLayer" and "\<forall>p\<in>set C. h p \<noteq> None"
  shows "\<exists>number. predictDigit h C = Inr number \<and>
           (case number of
              None \<Rightarrow> (\<forall>i<length C. valueOf h (C ! i) < 0)
            | Some j \<Rightarrow> j < length C
                \<and> (\<forall>i<length C. valueOf h (C ! i) \<le> valueOf h (C ! j))
                \<and> (\<forall>i<length C. j < i \<longrightarrow> valueOf h (C ! i) < valueOf h (C ! j)))"
proof -
  from allPredictions_loop [OF assms] obtain a where
    a: "forEach [0..<length C] (allPredictions_body h C) (replicate numNeuronsOutputLayer None) = Inr a"
       "length a = numNeuronsOutputLayer" "\<forall>i<length C. a ! i = Some (valueOf h (C ! i))"
    by blast
  have "length C \<le> length a" using a(2) assms(1) by simp
  from maxScan_loop [OF this a(3)] obtain m number where
    mn: "forEach [0..<length C] (maxScan_body a) (0, None) = Inr (m, number)"
        "(case number of
              None \<Rightarrow> (\<forall>i<length C. valueOf h (C ! i) < 0)
            | Some j \<Rightarrow> j < length C \<and> valueOf h (C ! j) = m
                \<and> (\<forall>i<length C. valueOf h (C ! i) \<le> valueOf h (C ! j))
                \<and> (\<forall>i<length C. j < i \<longrightarrow> valueOf h (C ! i) < valueOf h (C ! j)))"
    by blast
  have "predictDigit h C = Inr number"
    by (simp add: predictDigit_def a(1) maxScan_def mn(1))
  then show ?thesis using mn(2) by (auto split: option.splits)
qed

lemma tie_eval: "predictDigit tie_outputs [0, 1, 2, 3] = Inr (Some 2)"
  by (simp add: predictDigit_def tie_outputs_def allPredictions_body_def getNodeValue_def
      array_write_def numNeuronsOutputLayer_def maxScan_def maxScan_body_def array_read_def
      forEach_append)

text \<open>
  C5 as stated fails: for the output activations \<open>[0.5, 0.9, 0.9, 0.1]\<close> the predicted
  digit is 2, not 1.
\<close>

theorem predictDigit_tie_counterexample:
  "predictDigit tie_outputs [0, 1, 2, 3] = Inr (Some 2) \<and>
   predictDigit tie_outputs [0, 1, 2, 3] \<noteq> Inr (Some 1)"
  using tie_eval by simp

theorem predictDigit_last_maximum_witness:
  "predictDigit tie_outputs [0, 1, 2, 3] = Inr (Some 2) \<and>
   valueOf tie_outputs ([0, 1, 2, 3] ! 1) \<le> valueOf tie_outputs ([0, 1, 2, 3] ! 2)"
proof -
  have len: "length [0, 1, 2, 3 :: nat] \<le> numNeuronsOutputLayer"
    by (simp add: numNeuronsOutputLayer_def)
  have nn: "\<forall>p\<in>set [0, 1, 2, 3]. tie_outputs p \<noteq> None"
    by (simp add: tie_outputs_def)
  from predictDigit_last_maximum [OF len nn] obtain number where
    n: "predictDigit tie_outputs [0, 1, 2, 3] = Inr number"
    and c: "(case number of
              None \<Rightarrow> (\<forall>i<length [0, 1, 2, 3 :: nat]. valueOf tie_outputs ([0, 1, 2, 3] ! i) < 0)
            | Some j \<Rightarrow> j < length [0, 1, 2, 3 :: nat]
                \<and> (\<forall>i<length [0, 1, 2, 3 :: nat].
                      valueOf tie_outputs ([0, 1, 2, 3] ! i) \<le> valueOf tie_outputs ([0, 1, 2, 3] ! j))
                \<and> (\<forall>i<length [0, 1, 2, 3 :: nat]. j < i \<longrightarrow>
                      valueOf tie_outputs ([0, 1, 2, 3] ! i) < valueOf tie_outputs ([0, 1, 2, 3] ! j)))"
    by blast
  have two: "number = Some 2" using n tie_eval by simp
  have "\<forall>i<length [0, 1, 2, 3 :: nat].
          valueOf tie_outputs ([0, 1, 2, 3] ! i) \<le> valueOf tie_outputs ([0, 1, 2, 3] ! 2)"
    using c unfolding two by simp
  then have "1 < length [0, 1, 2, 3 :: nat] \<longrightarrow>
      valueOf tie_outputs ([0, 1, 2, 3] ! 1) \<le> valueOf tie_outputs ([0, 1, 2, 3] ! 2)"
    by blast
  then have "valueOf tie_outputs ([0, 1, 2, 3] ! 1) \<le> valueOf tie_outputs ([0, 1, 2, 3] ! 2)"
    by simp
  then show ?thesis using tie_eval by simp
qed

section \<open>backPropagate: the first loop nest\<close>

lemma valid_layerD:
  "valid_layer h L n \<Longrightarrow> i < length L \<Longrightarrow> \<exists>c. h (L ! i) = Some c \<and> n \<le> length (weights c)"
  by (auto simp: valid_layer_def list_all_length split: option.splits)

lemma deltas_inner_step:
  assumes "heap f (B ! i) = Some c" and "j < length (weights c)" and "j < length err"
    and "i < numNeuronsHiddenLayer" and "j < numNeuronsOutputLayer"
  shows "deltas_inner B err i j (nv, f) =
           Inr (dadd nv (dmul (weights c ! j) (err ! j)),
                f\<lparr>DeltaWjk := (DeltaWjk f)((i, j) \<mapsto> float_of_double (dmul (dmul learningRate (err ! j)) (nodeValue c)))\<rparr>)"
  using assms
  by (simp add: deltas_inner_def getWeight_def getNodeValue_def read_resultErrorRate_def
      write_DeltaWjk_def)

lemma deltas_inner_loop:
  assumes c: "heap f (B ! i) = Some c" and n: "n \<le> length (weights c)" "n \<le> length err"
    "n \<le> numNeuronsOutputLayer" and i: "i < numNeuronsHiddenLayer"
  shows "\<exists>f'. forEach [0..<n] (deltas_inner B err i) (0, f)
                 = Inr (foldl (\<lambda>nodeVal k. dadd nodeVal (dmul (weights c ! k) (err ! k))) 0 [0..<n], f')
           \<and> heap f' = heap f \<and> DeltaJ f' = DeltaJ f \<and> DeltaWik f' = DeltaWik f
           \<and> (\<forall>j<n. DeltaWjk f' (i, j) = Some (float_of_double (dmul (dmul learningRate (err ! j)) (nodeValue c))))
           \<and> (\<forall>i' j. i' \<noteq> i \<longrightarrow> DeltaWjk f' (i', j) = DeltaWjk f (i', j))"
proof -
  define I where "I = (\<lambda>k (t :: real \<times> frame).
      fst t = foldl (\<lambda>nodeVal k. dadd nodeVal (dmul (weights c ! k) (err ! k))) 0 [0..<k]
      \<and> heap (snd t) = heap f \<and> DeltaJ (snd t) = DeltaJ f \<and> DeltaWik (snd t) = DeltaWik f
      \<and> (\<forall>j<k. DeltaWjk (snd t) (i, j) = Some (float_of_double (dmul (dmul learningRate (err ! j)) (nodeValue c))))
      \<and> (\<forall>i' j. i' \<noteq> i \<longrightarrow> DeltaWjk (snd t) (i', j) = DeltaWjk f (i', j)))"
  have "\<exists>t. forEach [0..<n] (deltas_inner B err i) (0, f) = Inr t \<and> I n t"
  proof (rule forEach_upt_rule)
    show "I 0 (0, f)" by (simp add: I_def)
  next
    fix k t assume k: "k < n" and inv: "I k t"
    obtain nv g where t: "t = (nv, g)" by (cases t)
    have g: "heap g (B ! i) = Some c" using inv c by (simp add: I_def t)
    have step: "deltas_inner B err i k (nv, g) =
           Inr (dadd nv (dmul (weights c ! k) (err ! k)),
                g\<lparr>DeltaWjk := (DeltaWjk g)((i, k) \<mapsto> float_of_double (dmul (dmul learningRate (err ! k)) (nodeValue c)))\<rparr>)"
      using g k n i by (intro deltas_inner_step) simp_all
    have "I (Suc k) (dadd nv (dmul (weights c ! k) (err ! k)),
                g\<lparr>DeltaWjk := (DeltaWjk g)((i, k) \<mapsto> float_of_double (dmul (dmul learningRate (err ! k)) (nodeValue c)))\<rparr>)"
      using inv unfolding I_def t by (auto simp: less_Suc_eq)
    with step show "\<exists>t'. deltas_inner B err i k t = Inr t' \<and> I (Suc k) t'"
      unfolding t by blast
  qed
  then obtain t where t: "forEach [0..<n] (deltas_inner B err i) (0, f) = Inr t" "I n t"
    by blast
  obtain nv g where "t = (nv, g)" by (cases t)
  with t show ?thesis unfolding I_def by auto
qed

lemma deltas_body_step:
  assumes c: "heap f (B ! i) = Some c" and n: "length C \<le> length (weights c)"
    "length C \<le> length err" "length C \<le> numNeuronsOutputLayer"
    and i: "i < numNeuronsHiddenLayer"
  shows "\<exists>f'. deltas_body fmt B C err i f = Inr f'
           \<and> heap f' = heap f \<and> DeltaWik f' = DeltaWik f
           \<and> DeltaJ f' = (DeltaJ f)(i \<mapsto> hiddenDelta fmt (heap f) B (length C) err i)
           \<and> (\<forall>j<length C. DeltaWjk f' (i, j) = Some (float_of_double (dmul (dmul learningRate (err ! j)) (valueOf (heap f) (B ! i)))))
           \<and> (\<forall>i' j. i' \<noteq> i \<longrightarrow> DeltaWjk f' (i', j) = DeltaWjk f (i', j))"
proof -
  from deltas_inner_loop [OF c n i] obtain f1 where
    f1: "forEach [0..<length C] (deltas_inner B err i) (0, f)
                 = Inr (foldl (\<lambda>nodeVal k. dadd nodeVal (dmul (weights c ! k) (err ! k))) 0 [0..<length C], f1)"
      "heap f1 = heap f" "DeltaJ f1 = DeltaJ f" "DeltaWik f1 = DeltaWik f"
      "\<forall>j<length C. DeltaWjk f1 (i, j) = Some (float_of_double (dmul (dmul learningRate (err ! j)) (nodeValue c)))"
      "\<forall>i' j. i' \<noteq> i \<longrightarrow> DeltaWjk f1 (i', j) = DeltaWjk f (i', j)"
    by blast
  have v: "valueOf (heap f) (B ! i) = nodeValue c" using c by (simp add: valueOf_def)
  have w: "\<And>k. weightOf (heap f) (B ! i) k = weights c ! k" using c by (simp add: weightOf_def)
  have "deltas_body fmt B C err i f =
      Inr (f1\<lparr>DeltaJ := (DeltaJ f1)(i \<mapsto> hiddenDelta fmt (heap f) B (length C) err i)\<rparr>)"
    using c i
    by (simp add: deltas_body_def f1(1) f1(2) getNodeValue_def write_DeltaJ_def Let_def
        hiddenDelta_def pulledError_def v w)
  then show ?thesis using f1 v by simp
qed

lemma deltas_loop:
  assumes B: "valid_layer (heap f) B (length C)" and n: "length C \<le> length err"
    "length C \<le> numNeuronsOutputLayer"
    and m: "m \<le> length B" "m \<le> numNeuronsHiddenLayer"
  shows "\<exists>f'. forEach [0..<m] (deltas_body fmt B C err) f = Inr f'
           \<and> heap f' = heap f \<and> DeltaWik f' = DeltaWik f
           \<and> (\<forall>i<m. DeltaJ f' i = Some (hiddenDelta fmt (heap f) B (length C) err i))
           \<and> (\<forall>i. m \<le> i \<longrightarrow> DeltaJ f' i = DeltaJ f i)
           \<and> (\<forall>i<m. \<forall>j<length C.
                 DeltaWjk f' (i, j) = Some (float_of_double (dmul (dmul learningRate (err ! j)) (valueOf (heap f) (B ! i)))))
           \<and> (\<forall>i j. m \<le> i \<longrightarrow> DeltaWjk f' (i, j) = DeltaWjk f (i, j))"
proof -
  define I where "I = (\<lambda>k (g :: frame).
      heap g = heap f \<and> DeltaWik g = DeltaWik f
      \<and> (\<forall>i<k. DeltaJ g i = Some (hiddenDelta fmt (heap f) B (length C) err i))
      \<and> (\<forall>i. k \<le> i \<longrightarrow> DeltaJ g i = DeltaJ f i)
      \<and> (\<forall>i<k. \<forall>j<length C.
            DeltaWjk g (i, j) = Some (float_of_double (dmul (dmul learningRate (err ! j)) (valueOf (heap f) (B ! i)))))
      \<and> (\<forall>i j. k \<le> i \<longrightarrow> DeltaWjk g (i, j) = DeltaWjk f (i, j)))"
  have "\<exists>f'. forEach [0..<m] (deltas_body fmt B C err) f = Inr f' \<and> I m f'"
  proof (rule forEach_upt_rule)
    show "I 0 f" by (simp add: I_def)
  next
    fix k g assume k: "k < m" and inv: "I k g"
    have hg: "heap g = heap f" using inv by (simp add: I_def)
    from valid_layerD [OF B, of k] k m obtain c where
      c: "heap f (B ! k) = Some c" "length C \<le> length (weights c)" by auto
    have kk: "k < numNeuronsHiddenLayer" using k m by simp
    from deltas_body_step [where f = g and fmt = fmt and B = B, OF _ c(2) n kk] c(1) hg obtain g' where
      g': "deltas_body fmt B C err k g = Inr g'" "heap g' = heap g" "DeltaWik g' = DeltaWik g"
        "DeltaJ g' = (DeltaJ g)(k \<mapsto> hiddenDelta fmt (heap g) B (length C) err k)"
        "\<forall>j<length C. DeltaWjk g' (k, j) = Some (float_of_double (dmul (dmul learningRate (err ! j)) (valueOf (heap g) (B ! k))))"
        "\<forall>i' j. i' \<noteq> k \<longrightarrow> DeltaWjk g' (i', j) = DeltaWjk g (i', j)"
      by auto
    have "I (Suc k) g'"
      unfolding I_def
    proof (intro conjI allI impI)
      show "heap g' = heap f" using g'(2) hg by simp
      show "DeltaWik g' = DeltaWik f" using g'(3) inv by (simp add: I_def)
      show "DeltaJ g' i = Some (hiddenDelta fmt (heap f) B (length C) err i)" if "i < Suc k" for i
        using that g'(4) hg inv by (auto simp: I_def less_Suc_eq)
      show "DeltaJ g' i = DeltaJ f i" if "Suc k \<le> i" for i
        using that g'(4) inv by (auto simp: I_def)
      show "DeltaWjk g' (i, j) = Some (float_of_double (dmul (dmul learningRate (err ! j)) (valueOf (heap f) (B ! i))))"
        if "i < Suc k" "j < length C" for i j
      proof (cases "i = k")
        case True
        then show ?thesis using g'(5) that hg by simp
      next
        case False
        then have "i < k" using that by simp
        then show ?thesis using g'(6) False inv that by (simp add: I_def)
      qed
      show "DeltaWjk g' (i, j) = DeltaWjk f (i, j)" if "Suc k \<le> i" for i j
        using that g'(6) inv by (auto simp: I_def)
    qed
    with g'(1) show "\<exists>t'. deltas_body fmt B C err k g = Inr t' \<and> I (Suc k) t'" by blast
  qed
  then show ?thesis unfolding I_def by blast
qed

section \<open>Adding to weight rows\<close>

lemma length_add_row [simp]: "length (add_row ws d n) = length ws"
  by (simp add: add_row_def)

lemma nth_add_row:
  "j < length ws \<Longrightarrow> add_row ws d n ! j = (if j < n then fadd (ws ! j) (d j) else ws ! j)"
  by (simp add: add_row_def)

lemma add_row_0 [simp]: "add_row ws d 0 = ws"
  by (rule nth_equalityI) (simp_all add: nth_add_row)

lemma add_row_Suc:
  "k < length ws \<Longrightarrow> (add_row ws d k)[k := fadd (add_row ws d k ! k) (d k)] = add_row ws d (Suc k)"
  by (rule nth_equalityI) (auto simp: nth_add_row nth_list_update less_Suc_eq)

lemma shape_eqD:
  assumes "shape h' = shape h" and "h p = Some c"
  shows "\<exists>c'. h' p = Some c' \<and> nodeValue c' = nodeValue c
           \<and> length (weights c') = length (weights c)"
proof -
  have "shape h' p = shape h p" using assms(1) by simp
  then show ?thesis using assms(2) by (auto simp: shape_def)
qed

lemma shape_valid_layer: "shape h' = shape h \<Longrightarrow> valid_layer h' L n = valid_layer h L n"
proof -
  assume eq: "shape h' = shape h"
  have "(case h' p of None \<Rightarrow> False | Some c \<Rightarrow> n \<le> length (weights c))
      = (case h p of None \<Rightarrow> False | Some c \<Rightarrow> n \<le> length (weights c))" for p
  proof -
    have "shape h' p = shape h p" using eq by simp
    then show ?thesis by (cases "h p"; cases "h' p") (auto simp: shape_def)
  qed
  then show ?thesis by (simp add: valid_layer_def)
qed

lemma shape_add_to_row [simp]: "shape (add_to_row h p d n) = shape h"
  by (rule ext) (auto simp: shape_def add_to_row_def split: option.splits)

lemma add_rows_0 [simp]: "add_rows h L D n 0 = h"
  by (simp add: add_rows_def)

lemma add_rows_Suc:
  "add_rows h L D n (Suc m) = add_to_row (add_rows h L D n m) (L ! m) (D m) n"
  by (simp add: add_rows_def)

lemma shape_add_rows [simp]: "shape (add_rows h L D n m) = shape h"
  by (induction m) (simp_all add: add_rows_Suc)

lemma add_to_row_other: "q \<noteq> p \<Longrightarrow> add_to_row h p d n q = h q"
  by (simp add: add_to_row_def split: option.splits)

lemma add_to_row_same:
  "h p = Some c \<Longrightarrow> add_to_row h p d n p = Some (c\<lparr>weights := add_row (weights c) d n\<rparr>)"
  by (simp add: add_to_row_def)

lemma add_rows_other:
  "m \<le> length L \<Longrightarrow> q \<notin> set (take m L) \<Longrightarrow> add_rows h L D n m q = h q"
proof (induction m)
  case 0
  then show ?case by simp
next
  case (Suc m)
  then have "q \<noteq> L ! m" and "q \<notin> set (take m L)"
    by (auto simp: take_Suc_conv_app_nth)
  with Suc show ?case by (simp add: add_rows_Suc add_to_row_other)
qed

lemma add_rows_nth:
  assumes "distinct L" and "m \<le> length L" and "i < m" and "h (L ! i) = Some c"
  shows "add_rows h L D n m (L ! i) = Some (c\<lparr>weights := add_row (weights c) (D i) n\<rparr>)"
  using assms(2,3)
proof (induction m)
  case 0
  then show ?case by simp
next
  case (Suc m)
  show ?case
  proof (cases "i = m")
    case True
    have "L ! m \<notin> set (take m L)"
      using assms(1) Suc.prems(1)
      by (metis Suc_le_lessD id_take_nth_drop distinct_append
          disjoint_iff list.set_intros(1))
    hence "add_rows h L D n m (L ! m) = h (L ! m)"
      using Suc.prems(1) by (intro add_rows_other) simp_all
    then show ?thesis using assms(4) True by (simp add: add_rows_Suc add_to_row_same)
  next
    case False
    then have im: "i < m" using Suc.prems by simp
    have "L ! i \<noteq> L ! m"
      using assms(1) im Suc.prems(1) by (simp add: nth_eq_iff_index_eq)
    then show ?thesis using Suc im by (simp add: add_rows_Suc add_to_row_other)
  qed
qed

section \<open>backPropagate: the two update loop nests\<close>

lemma store_upd_triv: "h p = Some c \<Longrightarrow> h(p \<mapsto> c) = h"
  by (rule ext) simp

lemma updateA_inner_step:
  assumes "heap f (A ! i) = Some c" and "j < length (weights c)" and "DeltaJ f j = Some d"
    and "i < numNeuronsInputLayer" and "j < numNeuronsHiddenLayer"
  shows "updateA_inner A i j f =
           Inr (f\<lparr>heap := (heap f)(A ! i \<mapsto>
                    c\<lparr>weights := (weights c)[j := fadd (weights c ! j) (fmul (fmul learningRate (d)) (nodeValue c))]\<rparr>),
                  DeltaWik := (DeltaWik f)((i, j) \<mapsto> fmul (fmul learningRate (d)) (nodeValue c))\<rparr>)"
  using assms
  by (simp add: updateA_inner_def read_DeltaJ_def getNodeValue_def write_DeltaWik_def
      getWeight_def read_DeltaWik_def setWeight_def)

lemma updateA_inner_loop:
  assumes c: "heap f (A ! i) = Some c" and n: "n \<le> length (weights c)"
    "n \<le> numNeuronsHiddenLayer" and i: "i < numNeuronsInputLayer"
    and d: "\<forall>j<n. DeltaJ f j = Some (dJ j)"
  shows "\<exists>f'. forEach [0..<n] (updateA_inner A i) f = Inr f'
           \<and> heap f' = add_to_row (heap f) (A ! i) (\<lambda>j. fmul (fmul learningRate (dJ j)) (nodeValue c)) n
           \<and> DeltaJ f' = DeltaJ f \<and> DeltaWjk f' = DeltaWjk f
           \<and> (\<forall>j<n. DeltaWik f' (i, j) = Some (fmul (fmul learningRate (dJ j)) (nodeValue c)))
           \<and> (\<forall>i' j. i' \<noteq> i \<longrightarrow> DeltaWik f' (i', j) = DeltaWik f (i', j))"
proof -
  define D where "D = (\<lambda>j. fmul (fmul learningRate (dJ j)) (nodeValue c))"
  define I where "I = (\<lambda>k (g :: frame).
      heap g = (heap f)(A ! i \<mapsto> c\<lparr>weights := add_row (weights c) D k\<rparr>)
      \<and> DeltaJ g = DeltaJ f \<and> DeltaWjk g = DeltaWjk f
      \<and> (\<forall>j<k. DeltaWik g (i, j) = Some (D j))
      \<and> (\<forall>i' j. i' \<noteq> i \<longrightarrow> DeltaWik g (i', j) = DeltaWik f (i', j)))"
  have "\<exists>f'. forEach [0..<n] (updateA_inner A i) f = Inr f' \<and> I n f'"
  proof (rule forEach_upt_rule)
    show "I 0 f" using c by (simp add: I_def store_upd_triv)
  next
    fix k g assume k: "k < n" and inv: "I k g"
    define c' where "c' = c\<lparr>weights := add_row (weights c) D k\<rparr>"
    have g: "heap g (A ! i) = Some c'" using inv by (simp add: I_def c'_def)
    have kl: "k < length (weights c)" using k n by simp
    have dk: "DeltaJ g k = Some (dJ k)" using inv d k by (simp add: I_def)
    have wk: "weights c' ! k = weights c ! k" using kl by (simp add: c'_def nth_add_row)
    have step: "updateA_inner A i k g =
           Inr (g\<lparr>heap := (heap g)(A ! i \<mapsto>
                    c'\<lparr>weights := (weights c')[k := fadd (weights c' ! k) (fmul (fmul learningRate (dJ k)) (nodeValue c'))]\<rparr>),
                  DeltaWik := (DeltaWik g)((i, k) \<mapsto> fmul (fmul learningRate (dJ k)) (nodeValue c'))\<rparr>)"
      using g kl dk i k n by (intro updateA_inner_step) (simp_all add: c'_def)
    have row: "(weights c')[k := fadd (weights c' ! k) (fmul (fmul learningRate (dJ k)) (nodeValue c'))]
                 = add_row (weights c) D (Suc k)"
      using add_row_Suc [OF kl, of D] by (simp add: c'_def D_def)
    have "I (Suc k) (g\<lparr>heap := (heap g)(A ! i \<mapsto>
                    c'\<lparr>weights := (weights c')[k := fadd (weights c' ! k) (fmul (fmul learningRate (dJ k)) (nodeValue c'))]\<rparr>),
                  DeltaWik := (DeltaWik g)((i, k) \<mapsto> fmul (fmul learningRate (dJ k)) (nodeValue c'))\<rparr>)"
      unfolding row using inv unfolding I_def
      by (auto simp: c'_def D_def less_Suc_eq)
    with step show "\<exists>t'. updateA_inner A i k g = Inr t' \<and> I (Suc k) t'" by blast
  qed
  then show ?thesis using c unfolding I_def D_def add_to_row_def by auto
qed

lemma updateA_loop:
  assumes A: "valid_layer (heap f) A (length B)"
    and n: "length B \<le> numNeuronsHiddenLayer"
    and m: "m \<le> length A" "m \<le> numNeuronsInputLayer"
    and d: "\<forall>j<length B. DeltaJ f j = Some (dJ j)"
  shows "\<exists>f'. forEach [0..<m] (updateA_body A B) f = Inr f'
           \<and> heap f' = add_rows (heap f) A
                 (\<lambda>i j. fmul (fmul learningRate (dJ j)) (valueOf (heap f) (A ! i))) (length B) m
           \<and> DeltaJ f' = DeltaJ f \<and> DeltaWjk f' = DeltaWjk f
           \<and> (\<forall>i<m. \<forall>j<length B.
                 DeltaWik f' (i, j) = Some (fmul (fmul learningRate (dJ j)) (valueOf (heap f) (A ! i))))"
proof -
  define D where "D = (\<lambda>i j. fmul (fmul learningRate (dJ j)) (valueOf (heap f) (A ! i)))"
  define I where "I = (\<lambda>k (g :: frame).
      heap g = add_rows (heap f) A D (length B) k
      \<and> DeltaJ g = DeltaJ f \<and> DeltaWjk g = DeltaWjk f
      \<and> (\<forall>i<k. \<forall>j<length B. DeltaWik g (i, j) = Some (D i j)))"
  have "\<exists>f'. forEach [0..<m] (updateA_body A B) f = Inr f' \<and> I m f'"
  proof (rule forEach_upt_rule)
    show "I 0 f" by (simp add: I_def)
  next
    fix k g assume k: "k < m" and inv: "I k g"
    have hg: "heap g = add_rows (heap f) A D (length B) k" using inv by (simp add: I_def)
    have sh: "shape (heap g) = shape (heap f)" by (simp add: hg)
    from valid_layerD [OF A, of k] k m obtain c0 where
      c0: "heap f (A ! k) = Some c0" "length B \<le> length (weights c0)" by auto
    from shape_eqD [OF sh c0(1)] obtain c where
      c: "heap g (A ! k) = Some c" "nodeValue c = nodeValue c0"
         "length (weights c) = length (weights c0)" by blast
    have v: "nodeValue c = valueOf (heap f) (A ! k)" using c(2) c0(1) by (simp add: valueOf_def)
    have kk: "k < numNeuronsInputLayer" using k m by simp
    have dg: "\<forall>j<length B. DeltaJ g j = Some (dJ j)" using inv d by (simp add: I_def)
    have len: "length B \<le> length (weights c)" using c(3) c0(2) by simp
    from updateA_inner_loop [OF c(1) len n kk dg] obtain g' where
      g': "forEach [0..<length B] (updateA_inner A k) g = Inr g'"
        "heap g' = add_to_row (heap g) (A ! k) (\<lambda>j. fmul (fmul learningRate (dJ j)) (nodeValue c)) (length B)"
        "DeltaJ g' = DeltaJ g" "DeltaWjk g' = DeltaWjk g"
        "\<forall>j<length B. DeltaWik g' (k, j) = Some (fmul (fmul learningRate (dJ j)) (nodeValue c))"
        "\<forall>i' j. i' \<noteq> k \<longrightarrow> DeltaWik g' (i', j) = DeltaWik g (i', j)"
      by blast
    have "I (Suc k) g'"
      unfolding I_def
    proof (intro conjI allI impI)
      show "heap g' = add_rows (heap f) A D (length B) (Suc k)"
        using g'(2) by (simp add: add_rows_Suc hg D_def v)
      show "DeltaJ g' = DeltaJ f" using g'(3) inv by (simp add: I_def)
      show "DeltaWjk g' = DeltaWjk f" using g'(4) inv by (simp add: I_def)
      show "DeltaWik g' (i, j) = Some (D i j)" if "i < Suc k" "j < length B" for i j
      proof (cases "i = k")
        case True
        then show ?thesis using g'(5) that by (simp add: D_def v)
      next
        case False
        then have "i < k" using that by simp
        then show ?thesis using g'(6) False inv that by (simp add: I_def)
      qed
    qed
    with g'(1) show "\<exists>t'. updateA_body A B k g = Inr t' \<and> I (Suc k) t'"
      by (simp add: updateA_body_def)
  qed
  then show ?thesis unfolding I_def D_def by blast
qed

lemma updateB_inner_step:
  assumes "heap f (B ! i) = Some c" and "j < length (weights c)" and "DeltaWjk f (i, j) = Some d"
    and "i < numNeuronsHiddenLayer" and "j < numNeuronsOutputLayer"
  shows "updateB_inner B i j f =
           Inr (f\<lparr>heap := (heap f)(B ! i \<mapsto> c\<lparr>weights := (weights c)[j := fadd (weights c ! j) (d)]\<rparr>)\<rparr>)"
  using assms
  by (simp add: updateB_inner_def getWeight_def read_DeltaWjk_def setWeight_def)

lemma updateB_inner_loop:
  assumes c: "heap f (B ! i) = Some c" and n: "n \<le> length (weights c)"
    "n \<le> numNeuronsOutputLayer" and i: "i < numNeuronsHiddenLayer"
    and d: "\<forall>j<n. DeltaWjk f (i, j) = Some (G j)"
  shows "\<exists>f'. forEach [0..<n] (updateB_inner B i) f = Inr f'
           \<and> heap f' = add_to_row (heap f) (B ! i) G n
           \<and> DeltaJ f' = DeltaJ f \<and> DeltaWjk f' = DeltaWjk f \<and> DeltaWik f' = DeltaWik f"
proof -
  define I where "I = (\<lambda>k (g :: frame).
      heap g = (heap f)(B ! i \<mapsto> c\<lparr>weights := add_row (weights c) G k\<rparr>)
      \<and> DeltaJ g = DeltaJ f \<and> DeltaWjk g = DeltaWjk f \<and> DeltaWik g = DeltaWik f)"
  have "\<exists>f'. forEach [0..<n] (updateB_inner B i) f = Inr f' \<and> I n f'"
  proof (rule forEach_upt_rule)
    show "I 0 f" using c by (simp add: I_def store_upd_triv)
  next
    fix k g assume k: "k < n" and inv: "I k g"
    define c' where "c' = c\<lparr>weights := add_row (weights c) G k\<rparr>"
    have g: "heap g (B ! i) = Some c'" using inv by (simp add: I_def c'_def)
    have kl: "k < length (weights c)" using k n by simp
    have dk: "DeltaWjk g (i, k) = Some (G k)" using inv d k by (simp add: I_def)
    have wk: "weights c' ! k = weights c ! k" using kl by (simp add: c'_def nth_add_row)
    have step: "updateB_inner B i k g =
           Inr (g\<lparr>heap := (heap g)(B ! i \<mapsto> c'\<lparr>weights := (weights c')[k := fadd (weights c' ! k) (G k)]\<rparr>)\<rparr>)"
      using g kl dk i k n by (intro updateB_inner_step) (simp_all add: c'_def)
    have row: "(weights c')[k := fadd (weights c' ! k) (G k)] = add_row (weights c) G (Suc k)"
      using add_row_Suc [OF kl, of G] by (simp add: c'_def)
    have "I (Suc k) (g\<lparr>heap := (heap g)(B ! i \<mapsto> c'\<lparr>weights := (weights c')[k := fadd (weights c' ! k) (G k)]\<rparr>)\<rparr>)"
      unfolding row using inv unfolding I_def
      by (auto simp: c'_def)
    with step show "\<exists>t'. updateB_inner B i k g = Inr t' \<and> I (Suc k) t'" by blast
  qed
  then show ?thesis using c unfolding I_def add_to_row_def by auto
qed

lemma updateB_loop:
  assumes B: "valid_layer (heap f) B (length C)"
    and n: "length C \<le> numNeuronsOutputLayer"
    and m: "m \<le> length B" "m \<le> numNeuronsHiddenLayer"
    and d: "\<forall>i<m. \<forall>j<length C. DeltaWjk f (i, j) = Some (G i j)"
  shows "\<exists>f'. forEach [0..<m] (updateB_body B C) f = Inr f'
           \<and> heap f' = add_rows (heap f) B G (length C) m
           \<and> DeltaJ f' = DeltaJ f \<and> DeltaWjk f' = DeltaWjk f \<and> DeltaWik f' = DeltaWik f"
proof -
  define I where "I = (\<lambda>k (g :: frame).
      heap g = add_rows (heap f) B G (length C) k
      \<and> DeltaJ g = DeltaJ f \<and> DeltaWjk g = DeltaWjk f \<and> DeltaWik g = DeltaWik f)"
  have "\<exists>f'. forEach [0..<m] (updateB_body B C) f = Inr f' \<and> I m f'"
  proof (rule forEach_upt_rule)
    show "I 0 f" by (simp add: I_def)
  next
    fix k g assume k: "k < m" and inv: "I k g"
    have hg: "heap g = add_rows (heap f) B G (length C) k" using inv by (simp add: I_def)
    have sh: "shape (heap g) = shape (heap f)" by (simp add: hg)
    from valid_layerD [OF B, of k] k m obtain c0 where
      c0: "heap f (B ! k) = Some c0" "length C \<le> length (weights c0)" by auto
    from shape_eqD [OF sh c0(1)] obtain c where
      c: "heap g (B ! k) = Some c" "nodeValue c = nodeValue c0"
         "length (weights c) = length (weights c0)" by blast
    have kk: "k < numNeuronsHiddenLayer" using k m by simp
    have dg: "\<forall>j<length C. DeltaWjk g (k, j) = Some (G k j)" using inv d k by (simp add: I_def)
    have len: "length C \<le> length (weights c)" using c(3) c0(2) by simp
    from updateB_inner_loop [OF c(1) len n kk dg] obtain g' where
      g': "forEach [0..<length C] (updateB_inner B k) g = Inr g'"
        "heap g' = add_to_row (heap g) (B ! k) (G k) (length C)"
        "DeltaJ g' = DeltaJ g" "DeltaWjk g' = DeltaWjk g" "DeltaWik g' = DeltaWik g"
      by blast
    have "I (Suc k) g'"
      using g' inv by (simp add: I_def add_rows_Suc)
    with g'(1) show "\<exists>t'. updateB_body B C k g = Inr t' \<and> I (Suc k) t'"
      by (simp add: updateB_body_def)
  qed
  then show ?thesis unfolding I_def by blast
qed

section \<open>backPropagate: the whole call\<close>

lemma backPropagate_result:
  assumes A: "valid_layer h A (length B)" and B: "valid_layer h B (length C)"
    and err: "length C \<le> length err"
    and sizes: "length A \<le> numNeuronsInputLayer" "length B \<le> numNeuronsHiddenLayer"
      "length C \<le> numNeuronsOutputLayer"
  shows "\<exists>f. backPropagate fmt h A B C err = Inr f
    \<and> heap f = add_rows
         (add_rows h A (\<lambda>i j. fmul (fmul learningRate (hiddenDelta fmt h B (length C) err j)) (valueOf h (A ! i)))
            (length B) (length A))
         B (\<lambda>i j. float_of_double (dmul (dmul learningRate (err ! j)) (valueOf h (B ! i)))) (length C) (length B)
    \<and> (\<forall>i<length B. DeltaJ f i = Some (hiddenDelta fmt h B (length C) err i))
    \<and> (\<forall>i<length B. \<forall>j<length C.
          DeltaWjk f (i, j) = Some (float_of_double (dmul (dmul learningRate (err ! j)) (valueOf h (B ! i)))))
    \<and> (\<forall>i<length A. \<forall>j<length B.
          DeltaWik f (i, j) = Some (fmul (fmul learningRate (hiddenDelta fmt h B (length C) err j)) (valueOf h (A ! i))))"
proof -
  have h0: "heap (new_frame h) = h" by (simp add: new_frame_def)
  have B0: "valid_layer (heap (new_frame h)) B (length C)" using B by (simp add: h0)
  from deltas_loop [OF B0 err sizes(3) order_refl sizes(2)] obtain f1 where
    f1: "forEach [0..<length B] (deltas_body fmt B C err) (new_frame h) = Inr f1"
      "heap f1 = h"
      "\<forall>i<length B. DeltaJ f1 i = Some (hiddenDelta fmt h B (length C) err i)"
      "\<forall>i<length B. \<forall>j<length C.
          DeltaWjk f1 (i, j) = Some (float_of_double (dmul (dmul learningRate (err ! j)) (valueOf h (B ! i))))"
    unfolding h0 by blast
  have A1: "valid_layer (heap f1) A (length B)" using A f1(2) by simp
  from updateA_loop [OF A1 sizes(2) order_refl sizes(1) f1(3)] obtain f2 where
    f2: "forEach [0..<length A] (updateA_body A B) f1 = Inr f2"
      "heap f2 = add_rows h A
         (\<lambda>i j. fmul (fmul learningRate (hiddenDelta fmt h B (length C) err j)) (valueOf h (A ! i)))
         (length B) (length A)"
      "DeltaJ f2 = DeltaJ f1" "DeltaWjk f2 = DeltaWjk f1"
      "\<forall>i<length A. \<forall>j<length B.
          DeltaWik f2 (i, j) = Some (fmul (fmul learningRate (hiddenDelta fmt h B (length C) err j)) (valueOf h (A ! i)))"
    unfolding f1(2) by blast
  have "shape (heap f2) = shape h" by (simp add: f2(2))
  from shape_valid_layer [OF this] B have B2: "valid_layer (heap f2) B (length C)"
    by simp
  have d2: "\<forall>i<length B. \<forall>j<length C.
          DeltaWjk f2 (i, j) = Some (float_of_double (dmul (dmul learningRate (err ! j)) (valueOf h (B ! i))))"
    using f1(4) f2(4) by simp
  from updateB_loop [OF B2 sizes(3) order_refl sizes(2) d2] obtain f3 where
    f3: "forEach [0..<length B] (updateB_body B C) f2 = Inr f3"
      "heap f3 = add_rows (heap f2) B (\<lambda>i j. float_of_double (dmul (dmul learningRate (err ! j)) (valueOf h (B ! i))))
                   (length C) (length B)"
      "DeltaJ f3 = DeltaJ f2" "DeltaWjk f3 = DeltaWjk f2" "DeltaWik f3 = DeltaWik f2"
    by blast
  have "backPropagate fmt h A B C err = Inr f3"
    by (simp add: backPropagate_def f1(1) f2(1) f3(1))
  then show ?thesis
    using f1 f2 f3 by simp
qed

lemma backPropagate_weights:
  assumes A: "valid_layer h A (length B)" and B: "valid_layer h B (length C)"
    and err: "length C \<le> length err"
    and sizes: "length A \<le> numNeuronsInputLayer" "length B \<le> numNeuronsHiddenLayer"
      "length C \<le> numNeuronsOutputLayer"
    and dist: "distinct A" "distinct B" "set A \<inter> set B = {}"
  shows "\<exists>f. backPropagate fmt h A B C err = Inr f
    \<and> (\<forall>i<length A. \<forall>j<length B.
          weightOf (heap f) (A ! i) j
            = fadd (weightOf h (A ! i) j)
                (fmul (fmul learningRate (hiddenDelta fmt h B (length C) err j)) (valueOf h (A ! i))))
    \<and> (\<forall>i<length B. \<forall>k<length C.
          weightOf (heap f) (B ! i) k
            = fadd (weightOf h (B ! i) k)
                (float_of_double (dmul (dmul learningRate (err ! k)) (valueOf h (B ! i)))))"
proof -
  define DA where "DA = (\<lambda>i j. fmul (fmul learningRate (hiddenDelta fmt h B (length C) err j)) (valueOf h (A ! i)))"
  define DB where "DB = (\<lambda>i j. float_of_double (dmul (dmul learningRate (err ! j)) (valueOf h (B ! i))))"
  define h1 where "h1 = add_rows h A DA (length B) (length A)"
  from backPropagate_result [where fmt = fmt, OF A B err sizes] obtain f where
    f: "backPropagate fmt h A B C err = Inr f"
       "heap f = add_rows h1 B DB (length C) (length B)"
    unfolding DA_def DB_def h1_def by (elim exE conjE)
  have wA: "weightOf (heap f) (A ! i) j = fadd (weightOf h (A ! i) j) (DA i j)"
    if i: "i < length A" and j: "j < length B" for i j
  proof -
    from valid_layerD [OF A i] obtain c where
      c: "h (A ! i) = Some c" "length B \<le> length (weights c)" by blast
    have "A ! i \<notin> set B" using dist(3) i by (meson disjoint_iff nth_mem)
    then have "heap f (A ! i) = h1 (A ! i)"
      unfolding f(2) by (intro add_rows_other) simp_all
    also have "\<dots> = Some (c\<lparr>weights := add_row (weights c) (DA i) (length B)\<rparr>)"
      unfolding h1_def using dist(1) i c(1) by (intro add_rows_nth) simp_all
    finally show ?thesis
      using c j by (simp add: weightOf_def nth_add_row)
  qed
  have wB: "weightOf (heap f) (B ! i) k = fadd (weightOf h (B ! i) k) (DB i k)"
    if i: "i < length B" and k: "k < length C" for i k
  proof -
    from valid_layerD [OF B i] obtain c where
      c: "h (B ! i) = Some c" "length C \<le> length (weights c)" by blast
    have "B ! i \<notin> set A" using dist(3) i by (meson disjoint_iff nth_mem)
    then have "h1 (B ! i) = h (B ! i)"
      unfolding h1_def by (intro add_rows_other) simp_all
    then have "h1 (B ! i) = Some c" using c(1) by simp
    then have "heap f (B ! i) = Some (c\<lparr>weights := add_row (weights c) (DB i) (length C)\<rparr>)"
      unfolding f(2) using dist(2) i by (intro add_rows_nth) simp_all
    then show ?thesis
      using c k by (simp add: weightOf_def nth_add_row)
  qed
  show ?thesis
  proof (intro exI conjI allI impI)
    show "backPropagate fmt h A B C err = Inr f" by (rule f(1))
    show "weightOf (heap f) (A ! i) j
            = fadd (weightOf h (A ! i) j)
                (fmul (fmul learningRate (hiddenDelta fmt h B (length C) err j)) (valueOf h (A ! i)))"
      if "i < length A" "j < length B" for i j
      using wA [OF that] by (simp add: DA_def)
    show "weightOf (heap f) (B ! i) k
            = fadd (weightOf h (B ! i) k)
                (float_of_double (dmul (dmul learningRate (err ! k)) (valueOf h (B ! i))))"
      if "i < length B" "k < length C" for i k
      using wB [OF that] by (simp add: DB_def)
  qed
qed

lemma backPropagate_frame:
  assumes A: "valid_layer h A (length B)" and B: "valid_layer h B (length C)"
    and err: "length C \<le> length err"
    and sizes: "length A \<le> numNeuronsInputLayer" "length B \<le> numNeuronsHiddenLayer"
      "length C \<le> numNeuronsOutputLayer"
  shows "\<exists>f. backPropagate fmt h A B C err = Inr f
    \<and> shape (heap f) = shape h
    \<and> (\<forall>p. p \<notin> set A \<and> p \<notin> set B \<longrightarrow> heap f p = h p)"
proof -
  define D1 where "D1 = (\<lambda>i j. fmul (fmul learningRate (hiddenDelta fmt h B (length C) err j)) (valueOf h (A ! i)))"
  define D2 where "D2 = (\<lambda>i j. float_of_double (dmul (dmul learningRate (err ! j)) (valueOf h (B ! i))))"
  from backPropagate_result [where fmt = fmt, OF A B err sizes] obtain f where
    f: "backPropagate fmt h A B C err = Inr f"
       "heap f = add_rows (add_rows h A D1 (length B) (length A)) B D2 (length C) (length B)"
    unfolding D1_def D2_def by (elim exE conjE)
  have "heap f p = h p" if "p \<notin> set A" "p \<notin> set B" for p
  proof -
    have "heap f p = add_rows h A D1 (length B) (length A) p"
      unfolding f(2) using that by (intro add_rows_other) simp_all
    also have "\<dots> = h p" using that by (intro add_rows_other) simp_all
    finally show ?thesis .
  qed
  moreover have "shape (heap f) = shape h" by (simp add: f(2))
  ultimately show ?thesis using f(1) by blast
qed

lemma tiny_net_valid:
  "valid_layer tiny_net [0] (length [1 :: nat])"
  "valid_layer tiny_net [1] (length [2 :: nat])"
  "length [2 :: nat] \<le> length [1 / 2 :: real]"
  "length [0 :: nat] \<le> numNeuronsInputLayer"
  "length [1 :: nat] \<le> numNeuronsHiddenLayer"
  "length [2 :: nat] \<le> numNeuronsOutputLayer"
  by (simp_all add: valid_layer_def tiny_net_def numNeuronsInputLayer_def
      numNeuronsHiddenLayer_def numNeuronsOutputLayer_def)

lemma tiny_net_values:
  "valueOf tiny_net 0 = 1" "valueOf tiny_net 1 = 0" "valueOf tiny_net 2 = 1 / 2"
  "weightOf tiny_net 0 0 = 3" "weightOf tiny_net 1 0 = 2"
  by (simp_all add: tiny_net_def valueOf_def weightOf_def)

section \<open>backPropagate: the extent of the scratch buffers\<close>

lemma forEach_skip: "(\<And>i t. body i t = Inr t) \<Longrightarrow> forEach is body s = Inr s"
  by (induction "is") simp_all

lemma forEach_upt_split:
  assumes "m < n"
  shows "forEach [0..<n] body s
           = andThen (forEach [0..<m] body s) (\<lambda>t. andThen (body m t) (forEach [Suc m..<n] body))"
proof -
  have "[0..<m + (n - m)] = [0..<m] @ [m..<m + (n - m)]"
    by (rule upt_add_eq_append) simp
  then have "[0..<n] = [0..<m] @ m # [Suc m..<n]"
    using assms by (simp add: upt_conv_Cons)
  then have "forEach [0..<n] body s
      = andThen (forEach [0..<m] body s) (forEach (m # [Suc m..<n]) body)"
    by (simp add: forEach_append)
  also have "forEach (m # [Suc m..<n]) body = (\<lambda>t. andThen (body m t) (forEach [Suc m..<n] body))"
    by (rule ext) simp
  finally show ?thesis .
qed

lemma deltas_inner_no_scratch:
  assumes "i < numNeuronsHiddenLayer" and "j < numNeuronsOutputLayer"
  shows "deltas_inner B err i j t \<noteq> Inl ScratchIndexOutOfRange"
  using assms
  by (cases t)
     (auto simp: deltas_inner_def andThen_eq_Inl getWeight_def getNodeValue_def
        read_resultErrorRate_def write_DeltaWjk_def split: option.splits if_splits)

lemma deltas_body_no_scratch:
  assumes "i < numNeuronsHiddenLayer" and "length C \<le> numNeuronsOutputLayer"
  shows "deltas_body fmt B C err i f \<noteq> Inl ScratchIndexOutOfRange"
proof
  assume "deltas_body fmt B C err i f = Inl ScratchIndexOutOfRange"
  then consider
    "forEach [0..<length C] (deltas_inner B err i) (0, f) = Inl ScratchIndexOutOfRange"
    | nv f1 where "andThen (getNodeValue (heap f1) (B ! i))
        (\<lambda>v. let sigmoid = applySigmoidFunction fmt v
             in write_DeltaJ i (float_of_double (dmul (dmul nv sigmoid) (fsub 1 sigmoid))) f1)
          = Inl ScratchIndexOutOfRange"
    by (auto simp: deltas_body_def andThen_eq_Inl)
  then show False
  proof cases
    case 1
    from forEach_fault [OF this] obtain j t where
      "j < length C" "deltas_inner B err i j t = Inl ScratchIndexOutOfRange" by auto
    then show False using deltas_inner_no_scratch [of i j B err t] assms by simp
  next
    case 2
    then show False using assms(1)
      by (auto simp: andThen_eq_Inl getNodeValue_def write_DeltaJ_def Let_def
          split: option.splits if_splits)
  qed
qed

lemma updateA_inner_no_scratch:
  assumes "i < numNeuronsInputLayer" and "j < numNeuronsHiddenLayer"
  shows "updateA_inner A i j f \<noteq> Inl ScratchIndexOutOfRange"
  using assms
  by (auto simp: updateA_inner_def andThen_eq_Inl read_DeltaJ_def getNodeValue_def
        write_DeltaWik_def getWeight_def read_DeltaWik_def setWeight_def
      split: option.splits if_splits)

lemma updateB_inner_no_scratch:
  assumes "i < numNeuronsHiddenLayer" and "j < numNeuronsOutputLayer"
  shows "updateB_inner B i j f \<noteq> Inl ScratchIndexOutOfRange"
  using assms
  by (auto simp: updateB_inner_def andThen_eq_Inl getWeight_def read_DeltaWjk_def setWeight_def
      split: option.splits if_splits)

lemma backPropagate_no_scratch:
  assumes "length A \<le> numNeuronsInputLayer" and "length B \<le> numNeuronsHiddenLayer"
    and "length C \<le> numNeuronsOutputLayer"
  shows "backPropagate fmt h A B C err \<noteq> Inl ScratchIndexOutOfRange"
proof
  assume "backPropagate fmt h A B C err = Inl ScratchIndexOutOfRange"
  then consider
    "forEach [0..<length B] (deltas_body fmt B C err) (new_frame h) = Inl ScratchIndexOutOfRange"
    | f1 where "forEach [0..<length A] (updateA_body A B) f1 = Inl ScratchIndexOutOfRange"
    | f2 where "forEach [0..<length B] (updateB_body B C) f2 = Inl ScratchIndexOutOfRange"
    by (auto simp: backPropagate_def andThen_eq_Inl)
  then show False
  proof cases
    case 1
    from forEach_fault [OF this] obtain i t where
      "i < length B" "deltas_body fmt B C err i t = Inl ScratchIndexOutOfRange" by auto
    then show False using deltas_body_no_scratch [of i C fmt B err t] assms by simp
  next
    case 2
    from forEach_fault [OF this] obtain i t where
      i: "i < length A" "updateA_body A B i t = Inl ScratchIndexOutOfRange" by auto
    from forEach_fault [OF i(2) [unfolded updateA_body_def]] obtain j u where
      "j < length B" "updateA_inner A i j u = Inl ScratchIndexOutOfRange" by auto
    then show False using updateA_inner_no_scratch [of i j A u] i(1) assms by simp
  next
    case 3
    from forEach_fault [OF this] obtain i t where
      i: "i < length B" "updateB_body B C i t = Inl ScratchIndexOutOfRange" by auto
    from forEach_fault [OF i(2) [unfolded updateB_body_def]] obtain j u where
      "j < length C" "updateB_inner B i j u = Inl ScratchIndexOutOfRange" by auto
    then show False using updateB_inner_no_scratch [of i j B u] i(1) assms by simp
  qed
qed

lemma backPropagate_empty_hidden: "backPropagate fmt h A [] C err = Inr (new_frame h)"
proof -
  have "forEach [0..<length A] (updateA_body A []) (new_frame h) = Inr (new_frame h)"
    by (rule forEach_skip) (simp add: updateA_body_def)
  then show ?thesis by (simp add: backPropagate_def)
qed

lemma forEach_fault_at:
  assumes "m < n" and "forEach [0..<m] body s = Inr t" and "body m t = Inl e"
  shows "forEach [0..<n] body s = Inl e"
  using assms by (simp add: forEach_upt_split [of m n])

lemma deltas_body_fault_wide:
  assumes c: "heap f (B ! i) = Some c" and n: "length C \<le> length (weights c)"
    "length C \<le> length err" and wide: "numNeuronsOutputLayer < length C"
    and i: "i < numNeuronsHiddenLayer"
  shows "deltas_body fmt B C err i f = Inl ScratchIndexOutOfRange"
proof -
  have n': "numNeuronsOutputLayer \<le> length (weights c)" "numNeuronsOutputLayer \<le> length err"
    using n wide by simp_all
  from deltas_inner_loop [OF c n' order_refl i] obtain s f1 where
    f1: "forEach [0..<numNeuronsOutputLayer] (deltas_inner B err i) (0, f) = Inr (s, f1)"
        "heap f1 = heap f"
    by blast
  have w: "numNeuronsOutputLayer < length (weights c)" "numNeuronsOutputLayer < length err"
    using n wide by simp_all
  have flt: "deltas_inner B err i numNeuronsOutputLayer (s, f1) = Inl ScratchIndexOutOfRange"
    using c w
    by (simp add: deltas_inner_def f1(2) getWeight_def read_resultErrorRate_def getNodeValue_def
        write_DeltaWjk_def)
  from wide f1(1) flt
  have "forEach [0..<length C] (deltas_inner B err i) (0, f) = Inl ScratchIndexOutOfRange"
    by (rule forEach_fault_at)
  then show ?thesis by (simp add: deltas_body_def)
qed

lemma deltas_body_fault_long:
  assumes c: "heap f (B ! i) = Some c" and n: "length C \<le> length (weights c)"
    "length C \<le> length err" and i: "numNeuronsHiddenLayer \<le> i"
  shows "deltas_body fmt B C err i f = Inl ScratchIndexOutOfRange"
proof (cases "length C = 0")
  case True
  then show ?thesis
    using c i by (simp add: deltas_body_def getNodeValue_def write_DeltaJ_def Let_def)
next
  case False
  then have pos: "0 < length C" by simp
  have w: "0 < length (weights c)" "0 < length err"
    using n pos by linarith+
  have "deltas_inner B err i 0 (0, f) = Inl ScratchIndexOutOfRange"
    using c w i
    by (simp add: deltas_inner_def getWeight_def read_resultErrorRate_def getNodeValue_def
        write_DeltaWjk_def)
  then have "forEach [0..<length C] (deltas_inner B err i) (0, f) = Inl ScratchIndexOutOfRange"
    using pos by (intro forEach_fault_at [of 0]) simp_all
  then show ?thesis by (simp add: deltas_body_def)
qed

lemma updateA_body_fault:
  assumes c: "heap f (A ! i) = Some c" and ne: "B \<noteq> []" and d: "DeltaJ f 0 = Some d"
    and i: "numNeuronsInputLayer \<le> i"
  shows "updateA_body A B i f = Inl ScratchIndexOutOfRange"
proof -
  have "updateA_inner A i 0 f = Inl ScratchIndexOutOfRange"
    using c d i
    by (simp add: updateA_inner_def read_DeltaJ_def numNeuronsHiddenLayer_def getNodeValue_def
        write_DeltaWik_def)
  then show ?thesis
    unfolding updateA_body_def using ne by (intro forEach_fault_at [of 0]) simp_all
qed

lemma backPropagate_scratch_fault:
  assumes A: "valid_layer h A (length B)" and B: "valid_layer h B (length C)"
    and err: "length C \<le> length err" and ne: "B \<noteq> []"
    and viol: "\<not> (length A \<le> numNeuronsInputLayer \<and> length B \<le> numNeuronsHiddenLayer
                 \<and> length C \<le> numNeuronsOutputLayer)"
  shows "backPropagate fmt h A B C err = Inl ScratchIndexOutOfRange"
proof -
  have h0: "heap (new_frame h) = h" by (simp add: new_frame_def)
  have B0: "valid_layer (heap (new_frame h)) B (length C)" using B by (simp add: h0)
  have pos: "0 < length B" using ne by simp
  consider (wide) "numNeuronsOutputLayer < length C"
    | (long) "length C \<le> numNeuronsOutputLayer" "numNeuronsHiddenLayer < length B"
    | (deep) "length C \<le> numNeuronsOutputLayer" "length B \<le> numNeuronsHiddenLayer"
        "numNeuronsInputLayer < length A"
    using viol by linarith
  then show ?thesis
  proof cases
    case wide
    from valid_layerD [OF B pos] obtain c where
      c: "h (B ! 0) = Some c" "length C \<le> length (weights c)" by blast
    have "deltas_body fmt B C err 0 (new_frame h) = Inl ScratchIndexOutOfRange"
      using c err wide
      by (intro deltas_body_fault_wide [of _ _ _ c]) (simp_all add: h0 numNeuronsHiddenLayer_def)
    then have "forEach [0..<length B] (deltas_body fmt B C err) (new_frame h)
                 = Inl ScratchIndexOutOfRange"
      using pos by (intro forEach_fault_at [of 0]) simp_all
    then show ?thesis by (simp add: backPropagate_def)
  next
    case long
    from deltas_loop [where fmt = fmt, OF B0 err long(1) _ order_refl] long(2) obtain f1 where
      f1: "forEach [0..<numNeuronsHiddenLayer] (deltas_body fmt B C err) (new_frame h) = Inr f1"
          "heap f1 = h"
      unfolding h0 by auto
    from valid_layerD [OF B long(2)] obtain c where
      c: "h (B ! numNeuronsHiddenLayer) = Some c" "length C \<le> length (weights c)" by blast
    have "deltas_body fmt B C err numNeuronsHiddenLayer f1 = Inl ScratchIndexOutOfRange"
      using c err by (intro deltas_body_fault_long [of _ _ _ c]) (simp_all add: f1(2))
    with long(2) f1(1)
    have "forEach [0..<length B] (deltas_body fmt B C err) (new_frame h)
                 = Inl ScratchIndexOutOfRange"
      by (rule forEach_fault_at)
    then show ?thesis by (simp add: backPropagate_def)
  next
    case deep
    from deltas_loop [where fmt = fmt, OF B0 err deep(1) order_refl deep(2)] obtain f1 where
      f1: "forEach [0..<length B] (deltas_body fmt B C err) (new_frame h) = Inr f1"
          "heap f1 = h"
          "\<forall>i<length B. DeltaJ f1 i = Some (hiddenDelta fmt h B (length C) err i)"
      unfolding h0 by blast
    have A1: "valid_layer (heap f1) A (length B)" using A f1(2) by simp
    from updateA_loop [OF A1 deep(2) _ order_refl f1(3)] deep(3) obtain f2 D where
      f2: "forEach [0..<numNeuronsInputLayer] (updateA_body A B) f1 = Inr f2"
          "heap f2 = add_rows (heap f1) A D (length B) numNeuronsInputLayer"
          "DeltaJ f2 = DeltaJ f1"
      by auto
    from valid_layerD [OF A deep(3)] obtain c0 where
      c0: "h (A ! numNeuronsInputLayer) = Some c0" by blast
    have "shape (heap f2) = shape h" by (simp add: f2(2) f1(2))
    from shape_eqD [OF this c0] obtain c where
      c: "heap f2 (A ! numNeuronsInputLayer) = Some c" by blast
    have d: "DeltaJ f2 0 = Some (hiddenDelta fmt h B (length C) err 0)"
      using f1(3) f2(3) pos by simp
    have "updateA_body A B numNeuronsInputLayer f2 = Inl ScratchIndexOutOfRange"
      using c ne d by (rule updateA_body_fault) simp
    with deep(3) f2(1)
    have "forEach [0..<length A] (updateA_body A B) f1 = Inl ScratchIndexOutOfRange"
      by (rule forEach_fault_at)
    then show ?thesis by (simp add: backPropagate_def f1(1))
  qed
qed

text \<open>
  C10 as stated fails in the direction from right to left of its "if and only if": with an
  empty hidden layer no loop body runs, so no scratch buffer is accessed at all and the
  call returns, although the input layer has 785 entries.
\<close>

theorem backPropagate_bounds_counterexample:
  "backPropagate binary32 tiny_net (replicate 785 0) [] [] [] = Inr (new_frame tiny_net)
   \<and> \<not> (length (replicate 785 (0 :: nat)) \<le> 784 \<and> length ([] :: nat list) \<le> 60
          \<and> length ([] :: nat list) \<le> 10)"
  by (simp add: backPropagate_empty_hidden)

text \<open>
  C10, as amended. The scratch buffers have the extents 60 by 10, 784 by 60 and 60
  whatever the layers are: an access faults exactly when an index is past them. If the
  input, hidden and output layers have at most 784, 60 and 10 neurons, no access of
  \<open>backPropagate\<close> is past a scratch buffer. Conversely, for usable layers with a
  non-empty hidden layer, \<open>backPropagate\<close> runs into an access past a scratch buffer
  exactly when one of the three bounds is exceeded. With an empty hidden layer it
  accesses no scratch buffer and returns.
\<close>

theorem backPropagate_scratch_bounds:
  "(write_DeltaWjk i j v f = Inl ScratchIndexOutOfRange \<longleftrightarrow> \<not> (i < 60 \<and> j < 10))
   \<and> (write_DeltaWik i j v f = Inl ScratchIndexOutOfRange \<longleftrightarrow> \<not> (i < 784 \<and> j < 60))
   \<and> (write_DeltaJ i v f = Inl ScratchIndexOutOfRange \<longleftrightarrow> \<not> i < 60)
   \<and> (length A \<le> 784 \<and> length B \<le> 60 \<and> length C \<le> 10
        \<longrightarrow> backPropagate fmt h A B C err \<noteq> Inl ScratchIndexOutOfRange)
   \<and> (valid_layer h A (length B) \<and> valid_layer h B (length C) \<and> length C \<le> length err
        \<and> B \<noteq> []
        \<longrightarrow> (backPropagate fmt h A B C err = Inl ScratchIndexOutOfRange
               \<longleftrightarrow> \<not> (length A \<le> 784 \<and> length B \<le> 60 \<and> length C \<le> 10)))
   \<and> backPropagate fmt h A [] C err = Inr (new_frame h)"
proof (intro conjI impI)
  show "write_DeltaWjk i j v f = Inl ScratchIndexOutOfRange \<longleftrightarrow> \<not> (i < 60 \<and> j < 10)"
    by (simp add: write_DeltaWjk_def numNeuronsHiddenLayer_def numNeuronsOutputLayer_def)
  show "write_DeltaWik i j v f = Inl ScratchIndexOutOfRange \<longleftrightarrow> \<not> (i < 784 \<and> j < 60)"
    by (simp add: write_DeltaWik_def numNeuronsHiddenLayer_def numNeuronsInputLayer_def)
  show "write_DeltaJ i v f = Inl ScratchIndexOutOfRange \<longleftrightarrow> \<not> i < 60"
    by (simp add: write_DeltaJ_def numNeuronsHiddenLayer_def)
  show "backPropagate fmt h A B C err \<noteq> Inl ScratchIndexOutOfRange"
    if "length A \<le> 784 \<and> length B \<le> 60 \<and> length C \<le> 10"
    using that
    by (intro backPropagate_no_scratch)
       (simp_all add: numNeuronsInputLayer_def numNeuronsHiddenLayer_def
          numNeuronsOutputLayer_def)
  show "backPropagate fmt h A B C err = Inl ScratchIndexOutOfRange
          \<longleftrightarrow> \<not> (length A \<le> 784 \<and> length B \<le> 60 \<and> length C \<le> 10)"
    if v: "valid_layer h A (length B) \<and> valid_layer h B (length C) \<and> length C \<le> length err
        \<and> B \<noteq> []"
  proof
    assume "backPropagate fmt h A B C err = Inl ScratchIndexOutOfRange"
    then show "\<not> (length A \<le> 784 \<and> length B \<le> 60 \<and> length C \<le> 10)"
      using backPropagate_no_scratch [of A B C fmt h err]
      by (auto simp: numNeuronsInputLayer_def numNeuronsHiddenLayer_def
          numNeuronsOutputLayer_def)
  next
    assume "\<not> (length A \<le> 784 \<and> length B \<le> 60 \<and> length C \<le> 10)"
    then have "\<not> (length A \<le> numNeuronsInputLayer \<and> length B \<le> numNeuronsHiddenLayer
                 \<and> length C \<le> numNeuronsOutputLayer)"
      by (simp add: numNeuronsInputLayer_def numNeuronsHiddenLayer_def
          numNeuronsOutputLayer_def)
    with v show "backPropagate fmt h A B C err = Inl ScratchIndexOutOfRange"
      by (intro backPropagate_scratch_fault) simp_all
  qed
  show "backPropagate fmt h A [] C err = Inr (new_frame h)"
    by (rule backPropagate_empty_hidden)
qed

theorem backPropagate_scratch_bounds_witness:
  "backPropagate binary32 wide_net [] [1] (replicate 11 2) (replicate 11 0) = Inl ScratchIndexOutOfRange
   \<and> backPropagate binary32 tiny_net [0] [1] [2] [1 / 2] \<noteq> Inl ScratchIndexOutOfRange"
proof -
  have w: "valid_layer wide_net [] (length [1 :: nat])
        \<and> valid_layer wide_net [1] (length (replicate 11 (2 :: nat)))
        \<and> length (replicate 11 (2 :: nat)) \<le> length (replicate 11 (0 :: real))
        \<and> [1 :: nat] \<noteq> []"
    by (simp add: valid_layer_def wide_net_def)
  have nw: "\<not> (length ([] :: nat list) \<le> 784 \<and> length [1 :: nat] \<le> 60
        \<and> length (replicate 11 (2 :: nat)) \<le> 10)"
    by simp
  have t: "length [0 :: nat] \<le> 784 \<and> length [1 :: nat] \<le> 60 \<and> length [2 :: nat] \<le> 10"
    by simp
  note sb = backPropagate_scratch_bounds
  from sb [where fmt = binary32 and h = wide_net and A = "[]" and B = "[1]"
           and C = "replicate 11 2" and err = "replicate 11 0" and i = 0 and j = 0 and v = 0
           and f = "new_frame wide_net"]
  have "valid_layer wide_net [] (length [1 :: nat])
        \<and> valid_layer wide_net [1] (length (replicate 11 (2 :: nat)))
        \<and> length (replicate 11 (2 :: nat)) \<le> length (replicate 11 (0 :: real))
        \<and> [1 :: nat] \<noteq> []
        \<longrightarrow> (backPropagate binary32 wide_net [] [1] (replicate 11 2) (replicate 11 0)
                 = Inl ScratchIndexOutOfRange
               \<longleftrightarrow> \<not> (length ([] :: nat list) \<le> 784 \<and> length [1 :: nat] \<le> 60
                       \<and> length (replicate 11 (2 :: nat)) \<le> 10))"
    by (elim conjE)
  with w nw
  have 1: "backPropagate binary32 wide_net [] [1] (replicate 11 2) (replicate 11 0)
             = Inl ScratchIndexOutOfRange"
    by blast
  from sb [where fmt = binary32 and h = tiny_net and A = "[0]" and B = "[1]" and C = "[2]"
           and err = "[1 / 2]" and i = 0 and j = 0 and v = 0 and f = "new_frame tiny_net"]
  have "length [0 :: nat] \<le> 784 \<and> length [1 :: nat] \<le> 60 \<and> length [2 :: nat] \<le> 10
          \<longrightarrow> backPropagate binary32 tiny_net [0] [1] [2] [1 / 2] \<noteq> Inl ScratchIndexOutOfRange"
    by (elim conjE)
  with t have 2: "backPropagate binary32 tiny_net [0] [1] [2] [1 / 2] \<noteq> Inl ScratchIndexOutOfRange"
    by blast
  from 1 2 show ?thesis by blast
qed

section \<open>backPropagate: what a call leaves untouched\<close>

lemma forEach_Inr_induct:
  assumes "forEach is body s = Inr s'" and "P s"
    and "\<And>i t t'. i \<in> set is \<Longrightarrow> P t \<Longrightarrow> body i t = Inr t' \<Longrightarrow> P t'"
  shows "P s'"
  using assms
proof (induction "is" arbitrary: s)
  case Nil
  then show ?case by simp
next
  case (Cons i "is")
  from Cons.prems(1) obtain t where t: "body i s = Inr t" "forEach is body t = Inr s'"
    by (auto simp: andThen_eq_Inr)
  have "P t" by (rule Cons.prems(3) [of i s t]) (simp_all add: Cons.prems(2) t(1))
  with t(2) show ?case
  proof (rule Cons.IH)
    fix j u u' assume "j \<in> set is" "P u" "body j u = Inr u'"
    then show "P u'" using Cons.prems(3) [of j u u'] by simp
  qed
qed

lemma setWeight_keeps:
  assumes "setWeight h p j w = Inr h'"
  shows "shape h' = shape h \<and> (\<forall>q. q \<noteq> p \<longrightarrow> h' q = h q)"
proof -
  from assms obtain c where c: "h p = Some c" "j < length (weights c)"
    "h' = h(p \<mapsto> c\<lparr>weights := (weights c)[j := w]\<rparr>)"
    by (auto simp: setWeight_def split: option.splits if_splits)
  have "shape h' q = shape h q" for q using c by (simp add: shape_def)
  then have "shape h' = shape h" by (rule ext)
  then show ?thesis using c(3) by simp
qed

lemma deltas_body_heap:
  assumes "deltas_body fmt B C err i f = Inr f'"
  shows "heap f' = heap f"
proof -
  from assms obtain nv f1 where
    f1: "forEach [0..<length C] (deltas_inner B err i) (0, f) = Inr (nv, f1)"
    and w: "\<exists>v. write_DeltaJ i v f1 = Inr f'"
    by (auto simp: deltas_body_def andThen_eq_Inr Let_def)
  have "heap (snd (nv, f1)) = heap f"
  proof (rule forEach_Inr_induct [where P = "\<lambda>t. heap (snd t) = heap f", OF f1])
    show "heap (snd (0 :: real, f)) = heap f" by simp
  next
    fix j t t' assume "heap (snd t) = heap f" "deltas_inner B err i j t = Inr t'"
    then show "heap (snd t') = heap f"
      by (cases t) (auto simp: deltas_inner_def andThen_eq_Inr write_DeltaWjk_def split: if_splits)
  qed
  moreover from w have "heap f' = heap f1"
    by (auto simp: write_DeltaJ_def split: if_splits)
  ultimately show ?thesis by simp
qed

lemma updateA_inner_keeps:
  assumes "updateA_inner A i j f = Inr f'"
  shows "shape (heap f') = shape (heap f) \<and> (\<forall>q. q \<noteq> A ! i \<longrightarrow> heap f' q = heap f q)"
proof -
  from assms have "\<exists>w. setWeight (heap f) (A ! i) j w = Inr (heap f')"
    by (auto simp: updateA_inner_def andThen_eq_Inr write_DeltaWik_def split: if_splits)
  then obtain w where "setWeight (heap f) (A ! i) j w = Inr (heap f')" by blast
  then show ?thesis by (rule setWeight_keeps)
qed

lemma updateB_inner_keeps:
  assumes "updateB_inner B i j f = Inr f'"
  shows "shape (heap f') = shape (heap f) \<and> (\<forall>q. q \<noteq> B ! i \<longrightarrow> heap f' q = heap f q)"
proof -
  from assms have "\<exists>w. setWeight (heap f) (B ! i) j w = Inr (heap f')"
    by (auto simp: updateB_inner_def andThen_eq_Inr)
  then obtain w where "setWeight (heap f) (B ! i) j w = Inr (heap f')" by blast
  then show ?thesis by (rule setWeight_keeps)
qed

lemma backPropagate_keeps:
  assumes "backPropagate fmt h A B C err = Inr f"
  shows "shape (heap f) = shape h \<and> (\<forall>q. q \<notin> set A \<and> q \<notin> set B \<longrightarrow> heap f q = h q)"
proof -
  define P where "P = (\<lambda>g :: frame.
      shape (heap g) = shape h \<and> (\<forall>q. q \<notin> set A \<and> q \<notin> set B \<longrightarrow> heap g q = h q))"
  from assms obtain f1 f2 where
    1: "forEach [0..<length B] (deltas_body fmt B C err) (new_frame h) = Inr f1"
    and 2: "forEach [0..<length A] (updateA_body A B) f1 = Inr f2"
    and 3: "forEach [0..<length B] (updateB_body B C) f2 = Inr f"
    by (auto simp: backPropagate_def andThen_eq_Inr)
  have "heap f1 = h"
  proof (rule forEach_Inr_induct [where P = "\<lambda>g. heap g = h", OF 1])
    show "heap (new_frame h) = h" by (simp add: new_frame_def)
  next
    fix i t t' assume "heap t = h" "deltas_body fmt B C err i t = Inr t'"
    then show "heap t' = h" using deltas_body_heap by simp
  qed
  then have P1: "P f1" by (simp add: P_def)
  have P2: "P f2"
  proof (rule forEach_Inr_induct [where P = P, OF 2 P1])
    fix i t t' assume i: "i \<in> set [0..<length A]" and t: "P t"
      and b: "updateA_body A B i t = Inr t'"
    show "P t'"
    proof (rule forEach_Inr_induct [where P = P, OF b [unfolded updateA_body_def] t])
      fix j u u' assume u: "P u" and s: "updateA_inner A i j u = Inr u'"
      have "A ! i \<in> set A" using i by simp
      then show "P u'" using updateA_inner_keeps [OF s] u unfolding P_def by metis
    qed
  qed
  have "P f"
  proof (rule forEach_Inr_induct [where P = P, OF 3 P2])
    fix i t t' assume i: "i \<in> set [0..<length B]" and t: "P t"
      and b: "updateB_body B C i t = Inr t'"
    show "P t'"
    proof (rule forEach_Inr_induct [where P = P, OF b [unfolded updateB_body_def] t])
      fix j u u' assume u: "P u" and s: "updateB_inner B i j u = Inr u'"
      have "B ! i \<in> set B" using i by simp
      then show "P u'" using updateB_inner_keeps [OF s] u unfolding P_def by metis
    qed
  qed
  then show ?thesis by (simp add: P_def)
qed

text \<open>
  C9. Whenever \<open>backPropagate\<close> returns, every neuron of the store has the activation and
  the row length it had before, and a neuron that is in neither the input nor the hidden
  layer is exactly as it was; so an output layer that shares no neuron with those two
  layers is unchanged, values and weight rows. And \<open>backPropagate\<close> does return when the
  layers are usable and fit the scratch buffers.
\<close>

theorem backPropagate_frame_property:
  "(backPropagate fmt h A B C err = Inr f \<longrightarrow>
       (\<forall>p. map_option nodeValue (heap f p) = map_option nodeValue (h p))
     \<and> (\<forall>p. map_option (\<lambda>c. length (weights c)) (heap f p)
               = map_option (\<lambda>c. length (weights c)) (h p))
     \<and> (\<forall>p. p \<notin> set A \<and> p \<notin> set B \<longrightarrow> heap f p = h p)
     \<and> (set C \<inter> (set A \<union> set B) = {} \<longrightarrow> (\<forall>p\<in>set C. heap f p = h p)))
   \<and> (valid_layer h A (length B) \<and> valid_layer h B (length C) \<and> length C \<le> length err
        \<and> length A \<le> numNeuronsInputLayer \<and> length B \<le> numNeuronsHiddenLayer
        \<and> length C \<le> numNeuronsOutputLayer
      \<longrightarrow> (\<exists>f'. backPropagate fmt h A B C err = Inr f'))"
proof (intro conjI impI)
  assume r: "backPropagate fmt h A B C err = Inr f"
  from backPropagate_keeps [OF r] have sh: "shape (heap f) = shape h"
    and fr: "\<forall>q. q \<notin> set A \<and> q \<notin> set B \<longrightarrow> heap f q = h q"
    by simp_all
  have shp: "shape (heap f) p = shape h p" for p using sh by simp
  show "\<forall>p. map_option nodeValue (heap f p) = map_option nodeValue (h p)"
  proof
    fix p show "map_option nodeValue (heap f p) = map_option nodeValue (h p)"
      using shp [of p] by (cases "h p"; cases "heap f p") (auto simp: shape_def)
  qed
  show "\<forall>p. map_option (\<lambda>c. length (weights c)) (heap f p)
               = map_option (\<lambda>c. length (weights c)) (h p)"
  proof
    fix p show "map_option (\<lambda>c. length (weights c)) (heap f p)
               = map_option (\<lambda>c. length (weights c)) (h p)"
      using shp [of p] by (cases "h p"; cases "heap f p") (auto simp: shape_def)
  qed
  show "\<forall>p. p \<notin> set A \<and> p \<notin> set B \<longrightarrow> heap f p = h p" by (rule fr)
  show "\<forall>p\<in>set C. heap f p = h p" if "set C \<inter> (set A \<union> set B) = {}"
    using fr that by blast
next
  assume "valid_layer h A (length B) \<and> valid_layer h B (length C) \<and> length C \<le> length err
        \<and> length A \<le> numNeuronsInputLayer \<and> length B \<le> numNeuronsHiddenLayer
        \<and> length C \<le> numNeuronsOutputLayer"
  then have "\<exists>f. backPropagate fmt h A B C err = Inr f
    \<and> shape (heap f) = shape h
    \<and> (\<forall>p. p \<notin> set A \<and> p \<notin> set B \<longrightarrow> heap f p = h p)"
    by (intro backPropagate_frame) simp_all
  then show "\<exists>f'. backPropagate fmt h A B C err = Inr f'" by blast
qed

theorem backPropagate_frame_property_witness:
  "\<exists>f. backPropagate binary32 tiny_net [0] [1] [2] [1 / 2] = Inr f
     \<and> heap f 2 = tiny_net 2
     \<and> map_option nodeValue (heap f 0) = map_option nodeValue (tiny_net 0)
     \<and> map_option nodeValue (heap f 1) = map_option nodeValue (tiny_net 1)"
proof -
  note fp = backPropagate_frame_property [where fmt = binary32 and h = tiny_net and A = "[0]"
      and B = "[1]" and C = "[2]" and err = "[1 / 2]"]
  have "valid_layer tiny_net [0] (length [1 :: nat]) \<and> valid_layer tiny_net [1] (length [2 :: nat])
        \<and> length [2 :: nat] \<le> length [1 / 2 :: real]
        \<and> length [0 :: nat] \<le> numNeuronsInputLayer \<and> length [1 :: nat] \<le> numNeuronsHiddenLayer
        \<and> length [2 :: nat] \<le> numNeuronsOutputLayer"
    using tiny_net_valid by blast
  with fp obtain f where f: "backPropagate binary32 tiny_net [0] [1] [2] [1 / 2] = Inr f"
    by blast
  from fp [where f = f] f have
    v: "\<forall>p. map_option nodeValue (heap f p) = map_option nodeValue (tiny_net p)"
    and c: "set [2 :: nat] \<inter> (set [0] \<union> set [1]) = {} \<longrightarrow> (\<forall>p\<in>set [2]. heap f p = tiny_net p)"
    by blast+
  from c have "heap f 2 = tiny_net 2" by simp
  with f v show ?thesis by blast
qed

section \<open>dotProd\<close>

lemma dotProd_sum_cong:
  "(\<forall>a\<in>set A. g a = h a) \<Longrightarrow> dotProd_sum g A i acc = dotProd_sum h A i acc"
  by (induction A arbitrary: acc) (simp_all add: getWeight_def getNodeValue_def)

lemma dotProd_sum_eq:
  "valid_layer h A (Suc i) \<Longrightarrow>
     dotProd_sum h A i acc
       = Inr (foldl (\<lambda>value a. fadd value (fmul (weightOf h a i) (valueOf h a))) acc A)"
proof (induction A arbitrary: acc)
  case Nil
  then show ?case by simp
next
  case (Cons a A)
  from Cons.prems obtain c where c: "h a = Some c" "i < length (weights c)"
    by (auto simp: valid_layer_def split: option.splits)
  have v: "valid_layer h A (Suc i)" using Cons.prems by (simp add: valid_layer_def)
  show ?case
    using c by (simp add: getWeight_def getNodeValue_def Cons.IH [OF v] weightOf_def valueOf_def)
qed

lemma valid_layer_mono: "valid_layer h L n \<Longrightarrow> m \<le> n \<Longrightarrow> valid_layer h L m"
  by (auto simp: valid_layer_def list_all_iff split: option.splits)

lemma dotProd_result:
  assumes A: "valid_layer h A (length B)" and B: "valid_layer h B 0"
    and dist: "distinct B" "set A \<inter> set B = {}" and m: "m \<le> length B"
  shows "\<exists>h'. forEach [0..<m] (dotProd_body fmt A B) h = Inr h'
    \<and> (\<forall>j<m. \<exists>c. h (B ! j) = Some c \<and> h' (B ! j) = Some (c\<lparr>nodeValue :=
           applySigmoidFunction fmt (rawInput h A j)\<rparr>))
    \<and> (\<forall>p. p \<notin> set (take m B) \<longrightarrow> h' p = h p)"
proof -
  define I where "I = (\<lambda>k (g :: store).
      (\<forall>j<k. \<exists>c. h (B ! j) = Some c
                \<and> g (B ! j) = Some (c\<lparr>nodeValue := applySigmoidFunction fmt (rawInput h A j)\<rparr>))
      \<and> (\<forall>p. p \<notin> set (take k B) \<longrightarrow> g p = h p))"
  have "\<exists>h'. forEach [0..<m] (dotProd_body fmt A B) h = Inr h' \<and> I m h'"
  proof (rule forEach_upt_rule)
    show "I 0 h" by (simp add: I_def)
  next
    fix k g assume k: "k < m" and inv: "I k g"
    have kB: "k < length B" using k m by simp
    have agree: "\<forall>a\<in>set A. g a = h a"
    proof
      fix a assume "a \<in> set A"
      then have "a \<notin> set B" using dist(2) by blast
      then have "a \<notin> set (take k B)" by (meson in_set_takeD)
      then show "g a = h a" using inv by (simp add: I_def)
    qed
    have vA: "valid_layer h A (Suc k)" using A kB by (intro valid_layer_mono [OF A]) simp
    have s: "dotProd_sum g A k 0 = Inr (rawInput h A k)"
      by (simp add: dotProd_sum_cong [OF agree] dotProd_sum_eq [OF vA] rawInput_def)
    have notin: "B ! k \<notin> set (take k B)"
      using dist(1) kB
      by (metis distinct_take id_take_nth_drop not_distinct_conv_prefix)
    from valid_layerD [OF B kB] obtain c where c: "h (B ! k) = Some c" by blast
    have gk: "g (B ! k) = Some c" using inv notin c by (simp add: I_def)
    define g' where "g' = g(B ! k \<mapsto> c\<lparr>nodeValue := applySigmoidFunction fmt (rawInput h A k)\<rparr>)"
    have step: "dotProd_body fmt A B k g = Inr g'"
      by (simp add: dotProd_body_def s setNodeValue_def gk g'_def)
    have "I (Suc k) g'"
      unfolding I_def
    proof (intro conjI allI impI)
      fix j assume j: "j < Suc k"
      show "\<exists>c. h (B ! j) = Some c
                \<and> g' (B ! j) = Some (c\<lparr>nodeValue := applySigmoidFunction fmt (rawInput h A j)\<rparr>)"
      proof (cases "j = k")
        case True
        then show ?thesis using c by (simp add: g'_def)
      next
        case False
        then have jk: "j < k" using j by simp
        then have "B ! j \<noteq> B ! k" using dist(1) kB by (simp add: nth_eq_iff_index_eq)
        then show ?thesis using inv jk by (simp add: I_def g'_def)
      qed
    next
      fix p assume "p \<notin> set (take (Suc k) B)"
      then have "p \<noteq> B ! k" "p \<notin> set (take k B)"
        using kB by (auto simp: take_Suc_conv_app_nth)
      then show "g' p = h p" using inv by (simp add: I_def g'_def)
    qed
    with step show "\<exists>t'. dotProd_body fmt A B k g = Inr t' \<and> I (Suc k) t'" by blast
  qed
  then show ?thesis unfolding I_def by blast
qed

lemma dotProd_result_full:
  assumes "valid_layer h A (length B)" and "valid_layer h B 0"
    and "distinct B" and "set A \<inter> set B = {}"
  shows "\<exists>h'. dotProd fmt h A B = Inr h'
    \<and> (\<forall>j<length B. valueOf h' (B ! j) = applySigmoidFunction fmt (rawInput h A j))
    \<and> (\<forall>p. map_option weights (h' p) = map_option weights (h p))
    \<and> (\<forall>p. p \<notin> set B \<longrightarrow> h' p = h p)"
proof -
  from dotProd_result [where fmt = fmt, OF assms order_refl] obtain h' where
    h': "forEach [0..<length B] (dotProd_body fmt A B) h = Inr h'"
        "\<forall>j<length B. \<exists>c. h (B ! j) = Some c \<and> h' (B ! j) = Some (c\<lparr>nodeValue :=
           applySigmoidFunction fmt (rawInput h A j)\<rparr>)"
        "\<forall>p. p \<notin> set (take (length B) B) \<longrightarrow> h' p = h p"
    by (elim exE conjE)
  have 1: "dotProd fmt h A B = Inr h'" using h'(1) by (simp add: dotProd_def)
  have 2: "valueOf h' (B ! j) = applySigmoidFunction fmt (rawInput h A j)"
    if "j < length B" for j
    using h'(2) that by (auto simp: valueOf_def)
  have 3: "h' p = h p" if "p \<notin> set B" for p using h'(3) that by simp
  have 4: "map_option weights (h' p) = map_option weights (h p)" for p
  proof (cases "p \<in> set B")
    case True
    then obtain j where "j < length B" "p = B ! j" by (auto simp: in_set_conv_nth)
    then show ?thesis using h'(2) by auto
  next
    case False
    then show ?thesis by (simp add: 3)
  qed
  show ?thesis using 1 2 3 4 by blast
qed

lemma cancel_net_values:
  "valueOf cancel_net 0 = 1" "valueOf cancel_net 1 = 1" "valueOf cancel_net 2 = 1"
  "weightOf cancel_net 0 0 = 16777216" "weightOf cancel_net 1 0 = 1"
  "weightOf cancel_net 2 0 = - 16777216"
  "valueOf cancel_net (Suc 0) = 1" "weightOf cancel_net (Suc 0) 0 = 1"
  by (simp_all add: cancel_net_def valueOf_def weightOf_def)

lemma cancel_net_rawInput: "rawInput cancel_net [0, 1, 2] 0 = 0"
proof -
  have 1: "fadd 0 (fmul 16777216 1) = 16777216"
    by (simp add: fadd_def fmul_def fl32_values)
  have 2: "fadd 16777216 (fmul 1 1) = 16777216"
    by (simp add: fmul_def fl32_values fadd_values)
  have 3: "fadd 16777216 (fmul (- 16777216) 1) = 0"
    by (simp add: fadd_def fmul_def fl32_values)
  show ?thesis by (simp add: rawInput_def cancel_net_values 1 2 3)
qed

lemma cancel_net_dotProd:
  assumes "fmt = binary32 \<or> fmt = binary64"
  shows "\<exists>h'. dotProd fmt cancel_net [0, 1, 2] [3] = Inr h' \<and> valueOf h' 3 = 1 / 2"
proof -
  have v: "valid_layer cancel_net [0, 1, 2] (length [3 :: nat])" "valid_layer cancel_net [3] 0"
    "distinct [3 :: nat]" "set [0, 1, 2 :: nat] \<inter> set [3] = {}"
    by (simp_all add: valid_layer_def cancel_net_def)
  from dotProd_result_full [where fmt = fmt, OF v] obtain h' where
    h': "dotProd fmt cancel_net [0, 1, 2] [3] = Inr h'"
        "\<forall>j<length [3 :: nat]. valueOf h' ([3] ! j)
           = applySigmoidFunction fmt (rawInput cancel_net [0, 1, 2] j)"
    by (elim exE conjE)
  from h'(2) have "valueOf h' 3 = 1 / 2"
    using cancel_net_rawInput by (simp add: applySigmoidFunction_0 [OF assms])
  with h'(1) show ?thesis by blast
qed

text \<open>
  C1 as stated fails, because the sum is accumulated in \<open>float\<close>. In \<open>cancel_net\<close> the
  three products are \<open>2 ^ 24\<close>, 1 and \<open>- 2 ^ 24\<close>, their sum is 1, and C1 gives the
  downstream neuron the activation \<open>1 / (1 + exp (- 1))\<close>. In \<open>float\<close>, \<open>2 ^ 24 + 1\<close> is
  \<open>2 ^ 24\<close>, the accumulated sum is 0, and the activation \<open>dotProd\<close> stores is 1/2, whether
  the sigmoid is evaluated in \<open>float\<close> or in \<open>double\<close>.
\<close>

theorem dotProd_forward_counterexample:
  "(\<exists>h'. dotProd binary32 cancel_net [0, 1, 2] [3] = Inr h' \<and> valueOf h' 3 = 1 / 2)
   \<and> (\<exists>h'. dotProd binary64 cancel_net [0, 1, 2] [3] = Inr h' \<and> valueOf h' 3 = 1 / 2)
   \<and> (\<Sum>i<length [0, 1, 2 :: nat].
          weightOf cancel_net ([0, 1, 2] ! i) 0 * valueOf cancel_net ([0, 1, 2] ! i)) = 1
   \<and> 1 / (1 + exp (- 1)) \<noteq> (1 / 2 :: real)"
proof (intro conjI)
  show "\<exists>h'. dotProd binary32 cancel_net [0, 1, 2] [3] = Inr h' \<and> valueOf h' 3 = 1 / 2"
    by (rule cancel_net_dotProd) simp
  show "\<exists>h'. dotProd binary64 cancel_net [0, 1, 2] [3] = Inr h' \<and> valueOf h' 3 = 1 / 2"
    by (rule cancel_net_dotProd) simp
  show "(\<Sum>i<length [0, 1, 2 :: nat].
          weightOf cancel_net ([0, 1, 2] ! i) 0 * valueOf cancel_net ([0, 1, 2] ! i)) = 1"
    by (simp add: lessThan_Suc numeral_3_eq_3 cancel_net_values)
  have "exp (- 1 :: real) \<noteq> 1" by simp
  then show "1 / (1 + exp (- 1)) \<noteq> (1 / 2 :: real)" by (simp add: field_simps)
qed

text \<open>
  C1, as amended. When no pointer of the two layers is null, every upstream weight row
  reaches the downstream layer, and no neuron occurs twice in the downstream layer or in
  both layers, \<open>dotProd\<close> returns, and the activation of the downstream neuron at index
  \<open>j\<close> is then \<open>applySigmoidFunction\<close> of the raw input accumulated in \<open>float\<close>: starting
  from 0, for each upstream neuron in the order of the layer, the \<open>float\<close> product of its
  weight \<open>j\<close> and its activation, as they were before the call, is added in \<open>float\<close>.
  Nothing else changes: the weight rows and the neurons outside the downstream layer stay
  as they were. The upstream layer is taken within bounds (at most \<open>2 ^ 20\<close> neurons, no
  activation or weight beyond \<open>2 ^ 30\<close> in magnitude), so that no product and no partial
  sum overflows.
\<close>

theorem dotProd_forward:
  assumes "valid_layer h A (length B)" and "valid_layer h B 0"
    and "distinct B" and "set A \<inter> set B = {}"
    and "bounded_layer h A" and "length A \<le> 2 ^ 20"
  shows "\<exists>h'. dotProd fmt h A B = Inr h'
    \<and> (\<forall>j<length B. valueOf h' (B ! j)
          = applySigmoidFunction fmt
              (foldl (\<lambda>value a. fadd value (fmul (weightOf h a j) (valueOf h a))) 0 A))
    \<and> (\<forall>p. map_option weights (h' p) = map_option weights (h p))
    \<and> (\<forall>p. p \<notin> set B \<longrightarrow> h' p = h p)"
  using dotProd_result_full [where fmt = fmt, OF assms(1-4)] by (simp add: rawInput_def)

theorem dotProd_forward_witness:
  "\<exists>h'. dotProd binary32 tiny_net [1] [2] = Inr h' \<and> valueOf h' 2 = 1 / 2"
proof -
  have v: "valid_layer tiny_net [1] (length [2 :: nat])" "valid_layer tiny_net [2] 0"
    "distinct [2 :: nat]" "set [1 :: nat] \<inter> set [2] = {}"
    "bounded_layer tiny_net [1]" "length [1 :: nat] \<le> 2 ^ 20"
    by (simp_all add: valid_layer_def bounded_layer_def tiny_net_def)
  from dotProd_forward [where fmt = binary32, OF v] obtain h' where
    h': "dotProd binary32 tiny_net [1] [2] = Inr h'"
        "\<forall>j<length [2 :: nat]. valueOf h' ([2] ! j)
          = applySigmoidFunction binary32
              (foldl (\<lambda>value a. fadd value (fmul (weightOf tiny_net a j) (valueOf tiny_net a)))
                 0 [1])"
    by (elim exE conjE)
  have "fadd 0 (fmul 2 0) = 0" by (simp add: fadd_def fmul_def)
  with h'(2) have "valueOf h' 2 = 1 / 2"
    using tiny_net_values by (simp add: applySigmoidFunction_0)
  with h'(1) show ?thesis by blast
qed

section \<open>The error vector of a training sample\<close>

lemma resultErrorRate_loop:
  assumes "length C \<le> numNeuronsOutputLayer" and "valid_layer h C 0"
  shows "\<exists>r. compute_resultErrorRate h C t = Inr r
    \<and> length r = numNeuronsOutputLayer
    \<and> (\<forall>k<length C. r ! k = Some ((if unat t = k then 1 else 0) - valueOf h (C ! k)))
    \<and> (\<forall>k. length C \<le> k \<and> k < numNeuronsOutputLayer \<longrightarrow> r ! k = None)"
proof -
  define I where "I = (\<lambda>n (r :: real option list).
      length r = numNeuronsOutputLayer
      \<and> (\<forall>k<n. r ! k = Some ((if unat t = k then 1 else 0) - valueOf h (C ! k)))
      \<and> (\<forall>k. n \<le> k \<and> k < numNeuronsOutputLayer \<longrightarrow> r ! k = None))"
  have "\<exists>r. forEach [0..<length C] (resultErrorRate_body h C t)
               (replicate numNeuronsOutputLayer None) = Inr r \<and> I (length C) r"
  proof (rule forEach_upt_rule)
    show "I 0 (replicate numNeuronsOutputLayer None)" by (simp add: I_def)
  next
    fix n r assume n: "n < length C" and inv: "I n r"
    from valid_layerD [OF assms(2) n] obtain c where c: "h (C ! n) = Some c" by blast
    have len: "n < length r" using inv n assms(1) by (simp add: I_def)
    define x where "x = (if unat t = n then 1 else 0 :: real) - valueOf h (C ! n)"
    have "resultErrorRate_body h C t n r = Inr (r[n := Some x])"
      using len c
      by (simp add: resultErrorRate_body_def array_write_def array_read_def getNodeValue_def
          valueOf_def x_def)
    moreover have "I (Suc n) (r[n := Some x])"
      using inv len unfolding I_def x_def by (auto simp: less_Suc_eq nth_list_update)
    ultimately show "\<exists>t'. resultErrorRate_body h C t n r = Inr t' \<and> I (Suc n) t'" by blast
  qed
  then show ?thesis by (simp add: compute_resultErrorRate_def I_def)
qed

lemma written_prefix:
  assumes "n \<le> length r" and "\<forall>k<n. r ! k = Some (x k)"
    and "\<forall>k. n \<le> k \<and> k < length r \<longrightarrow> r ! k = None"
  shows "written r = map x [0..<n]"
proof -
  have "takeWhile (\<lambda>c. c \<noteq> None) r = take n r"
    using assms by (intro takeWhile_eq_take_P_nth) auto
  then have "written r = map the (take n r)" by (simp add: written_def)
  also have "\<dots> = map x [0..<n]"
    using assms(1,2) by (intro nth_equalityI) simp_all
  finally show ?thesis .
qed

lemma resultErrorRate_written:
  assumes "length C \<le> numNeuronsOutputLayer" and "valid_layer h C 0"
  shows "\<exists>r. compute_resultErrorRate h C t = Inr r
    \<and> written r = map (\<lambda>k. (if unat t = k then 1 else 0) - valueOf h (C ! k)) [0..<length C]"
proof -
  from resultErrorRate_loop [OF assms, of t] obtain r where
    r: "compute_resultErrorRate h C t = Inr r" "length r = numNeuronsOutputLayer"
       "\<forall>k<length C. r ! k = Some ((if unat t = k then 1 else 0) - valueOf h (C ! k))"
       "\<forall>k. length C \<le> k \<and> k < numNeuronsOutputLayer \<longrightarrow> r ! k = None"
    by (elim exE conjE)
  have "written r = map (\<lambda>k. (if unat t = k then 1 else 0) - valueOf h (C ! k)) [0..<length C]"
    using r assms(1) by (intro written_prefix) simp_all
  with r(1) show ?thesis by blast
qed






section \<open>backPropagate: the claims\<close>

lemma tiny_net_bounded:
  "bounded_layer tiny_net [0]" "bounded_layer tiny_net [1]"
  "list_all (\<lambda>e. \<bar>e\<bar> \<le> 2 ^ 30) [1 / 2 :: real]"
  by (simp_all add: bounded_layer_def tiny_net_def)

lemma tiny_distinct:
  "distinct [0 :: nat]" "distinct [1 :: nat]" "set [0 :: nat] \<inter> set [1] = {}"
  by simp_all

lemma tiny_net_valid_err:
  "length [2 :: nat] \<le> length [1073741823 / 1073741824 :: real]"
  by simp

lemma rounded_delta:
  "float_of_double (dmul (dmul (dadd 0 (dmul 2 (1073741823 / 1073741824))) (1 / 2)) (fsub 1 (1 / 2)))
     = 1 / 2"
proof -
  have 1: "fl binary64 (1073741823 / 536870912) = 1073741823 / 536870912"
    by (rule fl_exactI [where n = 1073741823 and e = "- 29"])
       (simp_all add: binary64_def powr_minus_divide)
  have 2: "fl binary64 (1073741823 / 1073741824) = 1073741823 / 1073741824"
    by (rule fl_exactI [where n = 1073741823 and e = "- 30"])
       (simp_all add: binary64_def powr_minus_divide)
  have 3: "fl binary64 (1073741823 / 2147483648) = 1073741823 / 2147483648"
    by (rule fl_exactI [where n = 1073741823 and e = "- 31"])
       (simp_all add: binary64_def powr_minus_divide)
  have 4: "fl binary32 (1073741823 / 2147483648) = 1 / 2"
    using fl_round_up [of binary32 "- 2" "1073741823 / 2147483648" "1 / 33554432" 16777215
        "63 / 64"]
    by (simp add: binary32_def powr_minus_divide)
  show ?thesis
    by (simp add: dadd_def dmul_def fsub_def float_of_double_def 1 2 3 4 fl32_values)
qed

lemma tiny_net_rounded_delta:
  assumes "fmt = binary32 \<or> fmt = binary64"
  shows "\<exists>f. backPropagate fmt tiny_net [0] [1] [2] [1073741823 / 1073741824] = Inr f
           \<and> DeltaJ f 0 = Some (1 / 2)"
proof -
  from backPropagate_result [where fmt = fmt,
      OF tiny_net_valid(1,2) tiny_net_valid_err tiny_net_valid(4-6)]
  obtain f where
    f: "backPropagate fmt tiny_net [0] [1] [2] [1073741823 / 1073741824] = Inr f"
       "\<forall>i<length [1 :: nat]. DeltaJ f i
          = Some (hiddenDelta fmt tiny_net [1] (length [2 :: nat]) [1073741823 / 1073741824] i)"
    by (elim exE conjE)
  have "hiddenDelta fmt tiny_net [1] (length [2 :: nat]) [1073741823 / 1073741824] 0 = 1 / 2"
    using tiny_net_values
    by (simp add: hiddenDelta_def pulledError_def applySigmoidFunction_0 [OF assms] rounded_delta)
  with f show ?thesis by simp
qed

text \<open>
  C2 as stated fails, because the delta is computed in floating point and stored in a
  \<open>float\<close>. In \<open>tiny_net\<close> the hidden neuron has the activation 0 and the weight 2; take
  the output error \<open>1 - 2 ^ - 30\<close> (the error of the labelled class for an output
  activation of \<open>2 ^ - 30\<close>). The sigmoid of 0 is 1/2, and C2 gives the delta
  \<open>2 * (1 - 2 ^ - 30) * (1/2) * (1/2) = 1/2 - 2 ^ - 31\<close>. The code computes this value in
  \<open>double\<close>, but \<open>DeltaJ\<close> is an array of \<open>float\<close>: the delta stored is 1/2.
\<close>

theorem backPropagate_hidden_delta_counterexample:
  "(\<exists>f. backPropagate binary32 tiny_net [0] [1] [2] [1073741823 / 1073741824] = Inr f
        \<and> DeltaJ f 0 = Some (1 / 2))
   \<and> (\<exists>f. backPropagate binary64 tiny_net [0] [1] [2] [1073741823 / 1073741824] = Inr f
        \<and> DeltaJ f 0 = Some (1 / 2))
   \<and> (\<Sum>k<length [2 :: nat]. weightOf tiny_net ([1] ! 0) k * [1073741823 / 1073741824] ! k)
        * (1 / (1 + exp (- valueOf tiny_net ([1] ! 0))))
        * (1 - 1 / (1 + exp (- valueOf tiny_net ([1] ! 0)))) = (1073741823 / 2147483648 :: real)
   \<and> (1073741823 / 2147483648 :: real) \<noteq> 1 / 2"
proof (intro conjI)
  show "\<exists>f. backPropagate binary32 tiny_net [0] [1] [2] [1073741823 / 1073741824] = Inr f
        \<and> DeltaJ f 0 = Some (1 / 2)"
    by (rule tiny_net_rounded_delta) simp
  show "\<exists>f. backPropagate binary64 tiny_net [0] [1] [2] [1073741823 / 1073741824] = Inr f
        \<and> DeltaJ f 0 = Some (1 / 2)"
    by (rule tiny_net_rounded_delta) simp
  show "(\<Sum>k<length [2 :: nat]. weightOf tiny_net ([1] ! 0) k * [1073741823 / 1073741824] ! k)
        * (1 / (1 + exp (- valueOf tiny_net ([1] ! 0))))
        * (1 - 1 / (1 + exp (- valueOf tiny_net ([1] ! 0)))) = (1073741823 / 2147483648 :: real)"
    using tiny_net_values by simp
  show "(1073741823 / 2147483648 :: real) \<noteq> 1 / 2" by simp
qed

text \<open>
  C2, as amended. When the layers are usable and fit the scratch buffers, \<open>backPropagate\<close>
  returns, and the delta it has stored for hidden neuron \<open>i\<close> is computed from the store
  as it was before the call: the error pulled back through the weights of the neuron,
  accumulated in \<open>double\<close> in the order of the output layer, times \<open>s\<close> (a \<open>double\<close>
  product), times \<open>1 - s\<close> (a \<open>float\<close> difference, a \<open>double\<close> product), converted to
  \<open>float\<close>, where \<open>s\<close> is \<open>applySigmoidFunction\<close> of the stored activation of the neuron
  (not the stored activation itself). The hidden layer and the error values are taken
  within bounds, so that no operation overflows.
\<close>

theorem backPropagate_hidden_delta:
  assumes "valid_layer h A (length B)" and "valid_layer h B (length C)"
    and "length C \<le> length err"
    and "length A \<le> numNeuronsInputLayer" and "length B \<le> numNeuronsHiddenLayer"
    and "length C \<le> numNeuronsOutputLayer"
    and "bounded_layer h B" and "list_all (\<lambda>e. \<bar>e\<bar> \<le> 2 ^ 30) err"
  shows "\<exists>f. backPropagate fmt h A B C err = Inr f
    \<and> (\<forall>i<length B. DeltaJ f i = Some (float_of_double
          (dmul (dmul (foldl (\<lambda>nodeVal k. dadd nodeVal (dmul (weightOf h (B ! i) k) (err ! k)))
                         0 [0..<length C])
                      (applySigmoidFunction fmt (valueOf h (B ! i))))
                (fsub 1 (applySigmoidFunction fmt (valueOf h (B ! i)))))))"
proof -
  from backPropagate_result [where fmt = fmt, OF assms(1-6)] obtain f where
    f: "backPropagate fmt h A B C err = Inr f"
       "\<forall>i<length B. DeltaJ f i = Some (hiddenDelta fmt h B (length C) err i)"
    by (elim exE conjE)
  show ?thesis
    using f by (simp add: hiddenDelta_def pulledError_def)
qed

theorem backPropagate_hidden_delta_witness:
  "\<exists>f. backPropagate binary32 tiny_net [0] [1] [2] [1 / 2] = Inr f \<and> DeltaJ f 0 = Some (1 / 4)"
proof -
  from backPropagate_hidden_delta [where fmt = binary32, OF tiny_net_valid tiny_net_bounded(2,3)]
  obtain f where
    f: "backPropagate binary32 tiny_net [0] [1] [2] [1 / 2] = Inr f"
       "\<forall>i<length [1 :: nat]. DeltaJ f i = Some (float_of_double
          (dmul (dmul (foldl (\<lambda>nodeVal k. dadd nodeVal
                                (dmul (weightOf tiny_net ([1] ! i) k) ([1 / 2] ! k)))
                         0 [0..<length [2 :: nat]])
                      (applySigmoidFunction binary32 (valueOf tiny_net ([1] ! i))))
                (fsub 1 (applySigmoidFunction binary32 (valueOf tiny_net ([1] ! i))))))"
    by (elim exE conjE)
  from f(2) have "DeltaJ f 0 = Some (1 / 4)"
    using tiny_net_values
    by (simp add: applySigmoidFunction_0 dadd_def dmul_def fsub_def float_of_double_def
        fl64_values fl32_values)
  with f(1) show ?thesis by blast
qed

lemma tiny_net_active_valid:
  "valid_layer tiny_net_active [0] (length [1 :: nat])"
  "valid_layer tiny_net_active [1] (length [2 :: nat])"
  "length [2 :: nat] \<le> length [1 / 2 :: real]"
  "length [0 :: nat] \<le> numNeuronsInputLayer"
  "length [1 :: nat] \<le> numNeuronsHiddenLayer"
  "length [2 :: nat] \<le> numNeuronsOutputLayer"
  by (simp_all add: valid_layer_def tiny_net_active_def tiny_net_def numNeuronsInputLayer_def
      numNeuronsHiddenLayer_def numNeuronsOutputLayer_def)

lemma tiny_net_active_values:
  "valueOf tiny_net_active 1 = 1" "weightOf tiny_net_active 1 0 = 2"
  "valueOf tiny_net_active (Suc 0) = 1" "weightOf tiny_net_active (Suc 0) 0 = 2"
  by (simp_all add: tiny_net_active_def valueOf_def weightOf_def)

lemma tiny_net_active_bounded:
  "bounded_layer tiny_net_active [0]" "bounded_layer tiny_net_active [1]"
  by (simp_all add: bounded_layer_def tiny_net_active_def tiny_net_def)

lemma heavy_net_valid:
  "valid_layer heavy_net [0] (length [1 :: nat])"
  "valid_layer heavy_net [1] (length [2 :: nat])"
  "length [2 :: nat] \<le> length [1 / 2 :: real]"
  "length [0 :: nat] \<le> numNeuronsInputLayer"
  "length [1 :: nat] \<le> numNeuronsHiddenLayer"
  "length [2 :: nat] \<le> numNeuronsOutputLayer"
  by (simp_all add: valid_layer_def heavy_net_def tiny_net_def numNeuronsInputLayer_def
      numNeuronsHiddenLayer_def numNeuronsOutputLayer_def)

lemma heavy_net_values:
  "valueOf heavy_net 1 = 1" "weightOf heavy_net 1 0 = 16777216"
  "valueOf heavy_net (Suc 0) = 1" "weightOf heavy_net (Suc 0) 0 = 16777216"
  by (simp_all add: heavy_net_def valueOf_def weightOf_def)

text \<open>The gradient \<open>learningRate * resultErrorRate[j] * value\<close> for the error 1/2.\<close>

lemma gradient_half:
  "float_of_double (dmul (dmul learningRate (1 / 2)) 1) = 13421773 / 268435456"
  "float_of_double (dmul (dmul learningRate (1 / 2)) 0) = 0"
  by (simp_all add: learningRate_value dmul_def float_of_double_def fl64_values fl32_values)

lemma heavy_net_update:
  "\<exists>f. backPropagate fmt heavy_net [0] [1] [2] [1 / 2] = Inr f
     \<and> weightOf (heap f) 1 0 = 16777216"
proof -
  from backPropagate_weights [where fmt = fmt, OF heavy_net_valid tiny_distinct] obtain f where
    f: "backPropagate fmt heavy_net [0] [1] [2] [1 / 2] = Inr f"
       "\<forall>i<length [1 :: nat]. \<forall>k<length [2 :: nat].
          weightOf (heap f) ([1] ! i) k
            = fadd (weightOf heavy_net ([1] ! i) k)
                (float_of_double (dmul (dmul learningRate ([1 / 2] ! k))
                   (valueOf heavy_net ([1] ! i))))"
    by (elim exE conjE)
  from f(2) have "weightOf (heap f) 1 0 = 16777216"
    using heavy_net_values by (simp add: gradient_half fadd_values)
  with f(1) show ?thesis by blast
qed

text \<open>
  C3 as stated fails, because the weights are updated in \<open>float\<close>. In \<open>heavy_net\<close> the
  hidden neuron has the activation 1 and the weight \<open>2 ^ 24\<close>, and the output error is
  1/2: C3 gives the weight \<open>2 ^ 24 + learningRate * (1/2) * 1\<close> after the call. The
  increment is less than half the distance between \<open>2 ^ 24\<close> and the next \<open>float\<close>, so the
  sum is rounded back and the weight is \<open>2 ^ 24\<close> after the call as before.
\<close>

theorem backPropagate_weight_update_counterexample:
  "(\<forall>fmt. \<exists>f. backPropagate fmt heavy_net [0] [1] [2] [1 / 2] = Inr f
            \<and> weightOf (heap f) ([1] ! 0) 0 = 16777216)
   \<and> weightOf heavy_net ([1] ! 0) 0 + learningRate * [1 / 2] ! 0 * valueOf heavy_net ([1] ! 0)
        \<noteq> 16777216"
proof (intro conjI allI)
  fix fmt
  show "\<exists>f. backPropagate fmt heavy_net [0] [1] [2] [1 / 2] = Inr f
            \<and> weightOf (heap f) ([1] ! 0) 0 = 16777216"
    using heavy_net_update [of fmt] by simp
  show "weightOf heavy_net ([1] ! 0) 0 + learningRate * [1 / 2] ! 0 * valueOf heavy_net ([1] ! 0)
        \<noteq> 16777216"
    using heavy_net_values learningRate_pos by simp
qed

text \<open>
  C3, as amended. When the layers are usable and fit the scratch buffers, and no neuron
  occurs twice in the input and hidden layers, \<open>backPropagate\<close> returns, and every weight
  is then the \<open>float\<close> sum of its old value and an increment. For the weight from input
  neuron \<open>i\<close> to hidden neuron \<open>j\<close> the increment is \<open>learningRate * delta j * activation of
  i\<close>, the two products in \<open>float\<close>; for the weight from hidden neuron \<open>i\<close> to output
  neuron \<open>k\<close> it is \<open>learningRate * error k * activation of i\<close>, the two products in
  \<open>double\<close> and the result converted to \<open>float\<close>. \<open>learningRate\<close> is the \<open>float\<close> nearest to
  0.1; the delta (as in C2), the weights in it and the activations are those of the store
  before the call. The sum is rounded to \<open>float\<close>: it can equal the old value although
  the increment is not 0. The layers and the error values are taken within bounds, so
  that no operation overflows.
\<close>

theorem backPropagate_weight_update:
  assumes "valid_layer h A (length B)" and "valid_layer h B (length C)"
    and "length C \<le> length err"
    and "length A \<le> numNeuronsInputLayer" and "length B \<le> numNeuronsHiddenLayer"
    and "length C \<le> numNeuronsOutputLayer"
    and "distinct A" and "distinct B" and "set A \<inter> set B = {}"
    and "bounded_layer h A" and "bounded_layer h B" and "list_all (\<lambda>e. \<bar>e\<bar> \<le> 2 ^ 30) err"
  shows "\<exists>f. backPropagate fmt h A B C err = Inr f
    \<and> (\<forall>i<length A. \<forall>j<length B.
          weightOf (heap f) (A ! i) j
            = fadd (weightOf h (A ! i) j)
                (fmul (fmul learningRate
                   (float_of_double
                      (dmul (dmul (foldl (\<lambda>nodeVal k. dadd nodeVal
                                            (dmul (weightOf h (B ! j) k) (err ! k)))
                                     0 [0..<length C])
                                  (applySigmoidFunction fmt (valueOf h (B ! j))))
                            (fsub 1 (applySigmoidFunction fmt (valueOf h (B ! j)))))))
                   (valueOf h (A ! i))))
    \<and> (\<forall>i<length B. \<forall>k<length C.
          weightOf (heap f) (B ! i) k
            = fadd (weightOf h (B ! i) k)
                (float_of_double (dmul (dmul learningRate (err ! k)) (valueOf h (B ! i)))))
    \<and> learningRate = 13421773 / 134217728"
  using backPropagate_weights [where fmt = fmt, OF assms(1-9)]
  by (simp add: hiddenDelta_def pulledError_def learningRate_value)

theorem backPropagate_weight_update_witness:
  "(\<exists>f. backPropagate binary32 tiny_net [0] [1] [2] [1 / 2] = Inr f
      \<and> weightOf (heap f) 0 0 = 6343885 / 2097152 \<and> weightOf (heap f) 1 0 = 2)
   \<and> (\<exists>f. backPropagate binary32 tiny_net_active [0] [1] [2] [1 / 2] = Inr f
      \<and> weightOf (heap f) 1 0 = 8598323 / 4194304)"
proof -
  from backPropagate_weight_update [where fmt = binary32, OF tiny_net_valid tiny_distinct
      tiny_net_bounded]
  obtain f where
    f: "backPropagate binary32 tiny_net [0] [1] [2] [1 / 2] = Inr f"
       "\<forall>i<length [0 :: nat]. \<forall>j<length [1 :: nat].
          weightOf (heap f) ([0] ! i) j
            = fadd (weightOf tiny_net ([0] ! i) j)
                (fmul (fmul learningRate
                   (float_of_double
                      (dmul (dmul (foldl (\<lambda>nodeVal k. dadd nodeVal
                                            (dmul (weightOf tiny_net ([1] ! j) k) ([1 / 2] ! k)))
                                     0 [0..<length [2 :: nat]])
                                  (applySigmoidFunction binary32 (valueOf tiny_net ([1] ! j))))
                            (fsub 1 (applySigmoidFunction binary32 (valueOf tiny_net ([1] ! j)))))))
                   (valueOf tiny_net ([0] ! i)))"
       "\<forall>i<length [1 :: nat]. \<forall>k<length [2 :: nat].
          weightOf (heap f) ([1] ! i) k
            = fadd (weightOf tiny_net ([1] ! i) k)
                (float_of_double (dmul (dmul learningRate ([1 / 2] ! k))
                   (valueOf tiny_net ([1] ! i))))"
    by (elim exE conjE)
  have d: "float_of_double (dmul (dmul (dadd 0 (dmul 2 (1 / 2))) (1 / 2)) (fsub 1 (1 / 2))) = 1 / 4"
    by (simp add: dadd_def dmul_def fsub_def float_of_double_def fl64_values fl32_values)
  have g: "fmul (fmul learningRate (1 / 4)) 1 = 13421773 / 536870912"
    by (simp add: learningRate_value fmul_def fl32_values)
  from f(2) have 1: "weightOf (heap f) 0 0 = 6343885 / 2097152"
    using tiny_net_values by (simp add: applySigmoidFunction_0 d g fadd_values)
  from f(3) have 2: "weightOf (heap f) 1 0 = 2"
    using tiny_net_values by (simp add: gradient_half fadd_def fl32_values)
  from backPropagate_weight_update [where fmt = binary32, OF tiny_net_active_valid tiny_distinct
      tiny_net_active_bounded tiny_net_bounded(3)]
  obtain f' where
    f': "backPropagate binary32 tiny_net_active [0] [1] [2] [1 / 2] = Inr f'"
       "\<forall>i<length [1 :: nat]. \<forall>k<length [2 :: nat].
          weightOf (heap f') ([1] ! i) k
            = fadd (weightOf tiny_net_active ([1] ! i) k)
                (float_of_double (dmul (dmul learningRate ([1 / 2] ! k))
                   (valueOf tiny_net_active ([1] ! i))))"
    by (elim exE conjE)
  from f'(2) have 3: "weightOf (heap f') 1 0 = 8598323 / 4194304"
    using tiny_net_active_values by (simp add: gradient_half fadd_values)
  from f(1) 1 2 f'(1) 3 show ?thesis by blast
qed

text \<open>
  C7 as stated fails. In \<open>tiny_net\<close> the output error is \<open>1/2 > 0\<close> and the only hidden
  activation is \<open>0\<close>, which is non-negative; the hidden-to-output weight is 2 before the
  call and 2 after it. A positive activation does not force an increase either: in
  \<open>heavy_net\<close> the hidden activation is 1, and the weight \<open>2 ^ 24\<close> is \<open>2 ^ 24\<close> after the
  call, because the \<open>float\<close> sum of the weight and the increment is rounded back.
\<close>

theorem backPropagate_monotone_counterexample:
  "(0 :: real) < [1 / 2] ! 0 \<and> 0 \<le> valueOf tiny_net ([1] ! 0)
   \<and> (case backPropagate binary32 tiny_net [0] [1] [2] [1 / 2] of
        Inl e \<Rightarrow> False
      | Inr f \<Rightarrow> \<not> weightOf tiny_net ([1] ! 0) 0 < weightOf (heap f) ([1] ! 0) 0)
   \<and> 0 < valueOf heavy_net ([1] ! 0)
   \<and> (case backPropagate binary32 heavy_net [0] [1] [2] [1 / 2] of
        Inl e \<Rightarrow> False
      | Inr f \<Rightarrow> \<not> weightOf heavy_net ([1] ! 0) 0 < weightOf (heap f) ([1] ! 0) 0)"
proof -
  from backPropagate_weights [where fmt = binary32, OF tiny_net_valid tiny_distinct] obtain f where
    f: "backPropagate binary32 tiny_net [0] [1] [2] [1 / 2] = Inr f"
       "\<forall>i<length [1 :: nat]. \<forall>k<length [2 :: nat].
          weightOf (heap f) ([1] ! i) k
            = fadd (weightOf tiny_net ([1] ! i) k)
                (float_of_double (dmul (dmul learningRate ([1 / 2] ! k))
                   (valueOf tiny_net ([1] ! i))))"
    by (elim exE conjE)
  from f(2) have "weightOf (heap f) 1 0 = 2"
    using tiny_net_values by (simp add: gradient_half fadd_def fl32_values)
  then have 1: "(case backPropagate binary32 tiny_net [0] [1] [2] [1 / 2] of
        Inl e \<Rightarrow> False
      | Inr f \<Rightarrow> \<not> weightOf tiny_net ([1] ! 0) 0 < weightOf (heap f) ([1] ! 0) 0)"
    using f(1) tiny_net_values by simp
  from heavy_net_update [of binary32] obtain g where
    g: "backPropagate binary32 heavy_net [0] [1] [2] [1 / 2] = Inr g"
       "weightOf (heap g) 1 0 = 16777216"
    by blast
  then have 2: "(case backPropagate binary32 heavy_net [0] [1] [2] [1 / 2] of
        Inl e \<Rightarrow> False
      | Inr f \<Rightarrow> \<not> weightOf heavy_net ([1] ! 0) 0 < weightOf (heap f) ([1] ! 0) 0)"
    using heavy_net_values by simp
  from 1 2 show ?thesis using tiny_net_values heavy_net_values by simp
qed

text \<open>
  C7, as amended. When the layers are usable and fit the scratch buffers, no neuron occurs
  twice in the input and hidden layers, and the hidden-to-output weights are \<open>float\<close>
  values, then for an output index \<open>k\<close> with a positive error, the weight from hidden
  neuron \<open>i\<close> to output neuron \<open>k\<close> does not decrease when the activation of the hidden
  neuron is non-negative, and stays as it is when that activation is zero.
\<close>

theorem backPropagate_monotone:
  assumes "valid_layer h A (length B)" and "valid_layer h B (length C)"
    and "length C \<le> length err"
    and "length A \<le> numNeuronsInputLayer" and "length B \<le> numNeuronsHiddenLayer"
    and "length C \<le> numNeuronsOutputLayer"
    and "distinct A" and "distinct B" and "set A \<inter> set B = {}"
    and "\<forall>i<length B. \<forall>k<length C. fl binary32 (weightOf h (B ! i) k) = weightOf h (B ! i) k"
  shows "\<exists>f. backPropagate fmt h A B C err = Inr f
    \<and> (\<forall>k<length C. 0 < err ! k \<longrightarrow> (\<forall>i<length B.
          (0 \<le> valueOf h (B ! i) \<longrightarrow> weightOf h (B ! i) k \<le> weightOf (heap f) (B ! i) k)
        \<and> (valueOf h (B ! i) = 0 \<longrightarrow> weightOf (heap f) (B ! i) k = weightOf h (B ! i) k)))"
proof -
  from backPropagate_weights [where fmt = fmt, OF assms(1-9)] obtain f where
    f: "backPropagate fmt h A B C err = Inr f"
       "\<forall>i<length B. \<forall>k<length C.
          weightOf (heap f) (B ! i) k
            = fadd (weightOf h (B ! i) k)
                (float_of_double (dmul (dmul learningRate (err ! k)) (valueOf h (B ! i))))"
    by (elim exE conjE)
  have p32: "1 \<le> precision binary32" by (simp add: binary32_def)
  have "(0 \<le> valueOf h (B ! i) \<longrightarrow> weightOf h (B ! i) k \<le> weightOf (heap f) (B ! i) k)
        \<and> (valueOf h (B ! i) = 0 \<longrightarrow> weightOf (heap f) (B ! i) k = weightOf h (B ! i) k)"
    if k: "k < length C" and e: "0 < err ! k" and i: "i < length B" for i k
  proof -
    define g where "g = float_of_double (dmul (dmul learningRate (err ! k)) (valueOf h (B ! i)))"
    have w: "weightOf (heap f) (B ! i) k = fl binary32 (weightOf h (B ! i) k + g)"
      using f(2) i k by (simp add: g_def fadd_def)
    have r: "fl binary32 (weightOf h (B ! i) k) = weightOf h (B ! i) k"
      using assms(10) i k by simp
    have le: "0 \<le> dmul learningRate (err ! k)"
      unfolding dmul_def using learningRate_pos e by (intro fl_nonneg) simp
    have 1: "weightOf h (B ! i) k \<le> weightOf (heap f) (B ! i) k" if v: "0 \<le> valueOf h (B ! i)"
    proof -
      have "0 \<le> dmul (dmul learningRate (err ! k)) (valueOf h (B ! i))"
        unfolding dmul_def [of "dmul learningRate (err ! k)"] using le v
        by (intro fl_nonneg mult_nonneg_nonneg)
      then have "0 \<le> g" unfolding g_def float_of_double_def by (rule fl_nonneg)
      then have "fl binary32 (weightOf h (B ! i) k) \<le> fl binary32 (weightOf h (B ! i) k + g)"
        by (intro fl_mono [OF p32]) simp
      then show ?thesis by (simp add: w r)
    qed
    have 2: "weightOf (heap f) (B ! i) k = weightOf h (B ! i) k" if v: "valueOf h (B ! i) = 0"
    proof -
      have "g = 0" by (simp add: g_def v dmul_def float_of_double_def)
      then show ?thesis by (simp add: w r)
    qed
    from 1 2 show ?thesis by blast
  qed
  with f(1) show ?thesis by blast
qed

theorem backPropagate_monotone_witness:
  "(\<exists>f. backPropagate binary32 tiny_net_active [0] [1] [2] [1 / 2] = Inr f
      \<and> weightOf tiny_net_active ([1] ! 0) 0 \<le> weightOf (heap f) ([1] ! 0) 0
      \<and> weightOf tiny_net_active ([1] ! 0) 0 = 2
      \<and> weightOf (heap f) ([1] ! 0) 0 = 8598323 / 4194304)
   \<and> (\<exists>f. backPropagate binary32 tiny_net [0] [1] [2] [1 / 2] = Inr f
      \<and> weightOf (heap f) ([1] ! 0) 0 = weightOf tiny_net ([1] ! 0) 0)"
proof -
  have fl: "\<forall>i<length [1 :: nat]. \<forall>k<length [2 :: nat].
      fl binary32 (weightOf tiny_net_active ([1] ! i) k) = weightOf tiny_net_active ([1] ! i) k"
    using tiny_net_active_values by (simp add: fl32_values)
  from backPropagate_monotone [where fmt = binary32, OF tiny_net_active_valid tiny_distinct fl]
  obtain f where
    f: "backPropagate binary32 tiny_net_active [0] [1] [2] [1 / 2] = Inr f"
       "\<forall>k<length [2 :: nat]. (0 :: real) < [1 / 2] ! k \<longrightarrow> (\<forall>i<length [1 :: nat].
          (0 \<le> valueOf tiny_net_active ([1] ! i)
             \<longrightarrow> weightOf tiny_net_active ([1] ! i) k \<le> weightOf (heap f) ([1] ! i) k)
        \<and> (valueOf tiny_net_active ([1] ! i) = 0
             \<longrightarrow> weightOf (heap f) ([1] ! i) k = weightOf tiny_net_active ([1] ! i) k))"
    by (elim exE conjE)
  from f(2) have 1: "weightOf tiny_net_active ([1] ! 0) 0 \<le> weightOf (heap f) ([1] ! 0) 0"
    using tiny_net_active_values by simp
  from backPropagate_weights [where fmt = binary32, OF tiny_net_active_valid tiny_distinct]
  obtain f' where
    f': "backPropagate binary32 tiny_net_active [0] [1] [2] [1 / 2] = Inr f'"
       "\<forall>i<length [1 :: nat]. \<forall>k<length [2 :: nat].
          weightOf (heap f') ([1] ! i) k
            = fadd (weightOf tiny_net_active ([1] ! i) k)
                (float_of_double (dmul (dmul learningRate ([1 / 2] ! k))
                   (valueOf tiny_net_active ([1] ! i))))"
    by (elim exE conjE)
  have "f' = f" using f(1) f'(1) by simp
  with f'(2) have 2: "weightOf (heap f) ([1] ! 0) 0 = 8598323 / 4194304"
    using tiny_net_active_values by (simp add: gradient_half fadd_values)
  have 3: "weightOf tiny_net_active ([1] ! 0) 0 = 2"
    using tiny_net_active_values by simp
  have fl0: "\<forall>i<length [1 :: nat]. \<forall>k<length [2 :: nat].
      fl binary32 (weightOf tiny_net ([1] ! i) k) = weightOf tiny_net ([1] ! i) k"
    using tiny_net_values by (simp add: fl32_values)
  from backPropagate_monotone [where fmt = binary32, OF tiny_net_valid tiny_distinct fl0]
  obtain g where
    g: "backPropagate binary32 tiny_net [0] [1] [2] [1 / 2] = Inr g"
       "\<forall>k<length [2 :: nat]. (0 :: real) < [1 / 2] ! k \<longrightarrow> (\<forall>i<length [1 :: nat].
          (0 \<le> valueOf tiny_net ([1] ! i)
             \<longrightarrow> weightOf tiny_net ([1] ! i) k \<le> weightOf (heap g) ([1] ! i) k)
        \<and> (valueOf tiny_net ([1] ! i) = 0
             \<longrightarrow> weightOf (heap g) ([1] ! i) k = weightOf tiny_net ([1] ! i) k))"
    by (elim exE conjE)
  from g(2) have 4: "weightOf (heap g) ([1] ! 0) 0 = weightOf tiny_net ([1] ! 0) 0"
    using tiny_net_values by simp
  from f(1) 1 2 3 g(1) 4 show ?thesis by blast
qed

section \<open>The sigmoid\<close>

text \<open>
  C6 as stated fails for the values the function computes. At the inputs 64 and 65 the
  term \<open>exp(-val)\<close> is below half a unit in the last place of 1, so \<open>1 + exp(-val)\<close> rounds
  to 1 and the result is exactly 1, in \<open>float\<close> and in \<open>double\<close> arithmetic alike: the
  result is not below 1, and it does not grow from 64 to 65. At the input -2000 the term
  \<open>exp(-val)\<close> overflows and the result is exactly 0.
\<close>

theorem applySigmoidFunction_counterexample:
  "applySigmoidFunction binary32 64 = 1 \<and> applySigmoidFunction binary64 64 = 1
   \<and> applySigmoidFunction binary32 65 = applySigmoidFunction binary32 64
   \<and> applySigmoidFunction binary64 65 = applySigmoidFunction binary64 64
   \<and> applySigmoidFunction binary32 (- 2000) = 0 \<and> applySigmoidFunction binary64 (- 2000) = 0"
  by (simp add: applySigmoidFunction_saturates applySigmoidFunction_underflows)

text \<open>
  C6, as amended. Whether \<open>exp\<close>, the sum and the quotient are computed in \<open>float\<close> or in
  \<open>double\<close>: the result at 0 is exactly 1/2; the result does not decrease when the input
  grows; every result lies in the closed interval from 0 to 1; and the result is exactly
  1 for every input from 64 on.
\<close>

theorem applySigmoidFunction_properties:
  assumes "fmt = binary32 \<or> fmt = binary64"
  shows "applySigmoidFunction fmt 0 = 1 / 2
   \<and> (x \<le> y \<longrightarrow> applySigmoidFunction fmt x \<le> applySigmoidFunction fmt y)
   \<and> 0 \<le> applySigmoidFunction fmt x \<and> applySigmoidFunction fmt x \<le> 1
   \<and> (64 \<le> x \<longrightarrow> applySigmoidFunction fmt x = 1)"
  using applySigmoidFunction_0 [OF assms] applySigmoidFunction_mono [OF assms, of x y]
    applySigmoidFunction_range [OF assms, of x] applySigmoidFunction_saturates [OF assms, of x]
  by simp

theorem applySigmoidFunction_properties_witness:
  "applySigmoidFunction binary32 0 = 1 / 2 \<and> applySigmoidFunction binary64 0 = 1 / 2
   \<and> applySigmoidFunction binary32 0 \<le> applySigmoidFunction binary32 1
   \<and> applySigmoidFunction binary32 1 \<le> 1
   \<and> applySigmoidFunction binary64 64 = 1"
proof -
  have a: "binary32 = binary32 \<or> binary32 = binary64" by simp
  have b: "binary64 = binary32 \<or> binary64 = binary64" by simp
  have "(0 :: real) \<le> 1" by simp
  with applySigmoidFunction_properties [OF a, of 0 1]
  have 1: "applySigmoidFunction binary32 0 = 1 / 2"
    "applySigmoidFunction binary32 0 \<le> applySigmoidFunction binary32 1"
    by blast+
  from applySigmoidFunction_properties [OF a, of 1 1]
  have 2: "applySigmoidFunction binary32 1 \<le> 1" by blast
  have "(64 :: real) \<le> 64" by simp
  with applySigmoidFunction_properties [OF b, of 64 64]
  have 3: "applySigmoidFunction binary64 64 = 1" by blast
  from applySigmoidFunction_properties [OF b, of 0 0]
  have 4: "applySigmoidFunction binary64 0 = 1 / 2" by blast
  from 1 2 3 4 show ?thesis by blast
qed

section \<open>Random numbers\<close>

text \<open>
  C8. For \<open>lo \<le> hi\<close> and every state of the generator, \<open>u lo hi\<close> returns, and the number
  it returns lies in the closed interval from \<open>lo\<close> to \<open>hi\<close>; \<open>u 5 5\<close> returns 5 in every
  state. The interval is the one the distribution is constructed with; that the
  distribution stays inside it is the modelled contract of the library.
\<close>

theorem u_in_range:
  "(lo \<le> hi \<longrightarrow> (\<exists>r generator'. u lo hi generator = Inr (r, generator') \<and> lo \<le> r \<and> r \<le> hi))
   \<and> (\<exists>generator'. u 5 5 generator = Inr (5, generator'))"
proof (intro conjI impI)
  assume le: "lo \<le> hi"
  define w where "w = int (unat (generator 0)) mod (hi - lo + 1)"
  have pos: "0 < hi - lo + 1" using le by simp
  have "0 \<le> w" unfolding w_def using pos by (intro pos_mod_sign)
  moreover have "w < hi - lo + 1" unfolding w_def using pos by (intro pos_mod_bound)
  moreover have "u lo hi generator = Inr (lo + w, \<lambda>n. generator (Suc n))"
    using le by (simp add: u_def uniform_int_distribution_def generate_def w_def)
  ultimately show "\<exists>r generator'. u lo hi generator = Inr (r, generator') \<and> lo \<le> r \<and> r \<le> hi"
    by simp
next
  show "\<exists>generator'. u 5 5 generator = Inr (5, generator')"
    by (simp add: u_def uniform_int_distribution_def generate_def)
qed

theorem u_in_range_witness:
  "(\<exists>r generator'. u 1 6 (\<lambda>n. 7) = Inr (r, generator') \<and> 1 \<le> r \<and> r \<le> 6)
   \<and> u 1 6 (\<lambda>n. 7) = Inr (2, \<lambda>n. 7)"
proof -
  have "(1 :: int) \<le> 6" by simp
  with u_in_range [of 1 6 "\<lambda>n. 7"]
  have "\<exists>r generator'. u 1 6 (\<lambda>n. 7) = Inr (r, generator') \<and> 1 \<le> r \<and> r \<le> 6"
    by blast
  moreover have "u 1 6 (\<lambda>n. 7) = Inr (2, \<lambda>n. 7)"
    by (simp add: u_def uniform_int_distribution_def generate_def)
  ultimately show ?thesis by blast
qed

section \<open>A whole training step\<close>

lemma weights_valid_layer:
  assumes "\<forall>p. map_option weights (h' p) = map_option weights (h p)"
  shows "valid_layer h' L n = valid_layer h L n"
proof -
  have "(case h' p of None \<Rightarrow> False | Some c \<Rightarrow> n \<le> length (weights c))
      = (case h p of None \<Rightarrow> False | Some c \<Rightarrow> n \<le> length (weights c))" for p
  proof -
    have "map_option weights (h' p) = map_option weights (h p)" using assms by simp
    then show ?thesis by (cases "h p"; cases "h' p") auto
  qed
  then show ?thesis by (simp add: valid_layer_def)
qed

lemma setInput_result:
  assumes A: "valid_layer h A 0" and dist: "distinct A" and px: "length A \<le> length px"
  shows "\<exists>h'. setInput h A px = Inr h'
    \<and> (\<forall>i<length A. valueOf h' (A ! i) = fdiv (fl binary32 (real_of_int (px ! i))) 255)
    \<and> (\<forall>p. map_option weights (h' p) = map_option weights (h p))
    \<and> (\<forall>p. p \<notin> set A \<longrightarrow> h' p = h p)"
proof -
  define I where "I = (\<lambda>k (g :: store).
      (\<forall>i<k. valueOf g (A ! i) = fdiv (fl binary32 (real_of_int (px ! i))) 255)
      \<and> (\<forall>p. map_option weights (g p) = map_option weights (h p))
      \<and> (\<forall>p. p \<notin> set (take k A) \<longrightarrow> g p = h p))"
  have "\<exists>h'. forEach [0..<length A] (setInput_body A px) h = Inr h' \<and> I (length A) h'"
  proof (rule forEach_upt_rule)
    show "I 0 h" by (simp add: I_def)
  next
    fix k g assume k: "k < length A" and inv: "I k g"
    have notin: "A ! k \<notin> set (take k A)"
      using dist k by (metis distinct_take id_take_nth_drop not_distinct_conv_prefix)
    from valid_layerD [OF A k] obtain c where c: "h (A ! k) = Some c" by blast
    have gk: "g (A ! k) = Some c" using inv notin c by (simp add: I_def)
    define g' where
      "g' = g(A ! k \<mapsto> c\<lparr>nodeValue := fdiv (fl binary32 (real_of_int (px ! k))) 255\<rparr>)"
    have step: "setInput_body A px k g = Inr g'"
      using k px by (simp add: setInput_body_def setNodeValue_def gk g'_def)
    have "I (Suc k) g'"
      unfolding I_def
    proof (intro conjI allI impI)
      fix i assume i: "i < Suc k"
      show "valueOf g' (A ! i) = fdiv (fl binary32 (real_of_int (px ! i))) 255"
      proof (cases "i = k")
        case True
        then show ?thesis by (simp add: g'_def valueOf_def)
      next
        case False
        then have ik: "i < k" using i by simp
        then have "A ! i \<noteq> A ! k" using dist k by (simp add: nth_eq_iff_index_eq)
        then show ?thesis using inv ik by (simp add: I_def g'_def valueOf_def)
      qed
    next
      fix p show "map_option weights (g' p) = map_option weights (h p)"
        using inv c by (simp add: I_def g'_def)
    next
      fix p assume "p \<notin> set (take (Suc k) A)"
      then have "p \<noteq> A ! k" "p \<notin> set (take k A)"
        using k by (auto simp: take_Suc_conv_app_nth)
      then show "g' p = h p" using inv by (simp add: I_def g'_def)
    qed
    with step show "\<exists>t'. setInput_body A px k g = Inr t' \<and> I (Suc k) t'" by blast
  qed
  then show ?thesis by (simp add: setInput_def I_def)
qed

text \<open>
  The double application in a training step. After the two forward passes the stored
  activation of hidden neuron \<open>i\<close> is already \<open>applySigmoidFunction\<close> of its raw input, and
  the delta that \<open>backPropagate\<close> then stores applies \<open>applySigmoidFunction\<close> to it once
  more.
\<close>

lemma trainSample_hidden_delta:
  assumes A: "valid_layer h A (length B)" and B: "valid_layer h B (length C)"
    and C: "valid_layer h C 0"
    and dist: "distinct A" "distinct B" "distinct C"
      "set A \<inter> set B = {}" "set B \<inter> set C = {}" "set A \<inter> set C = {}"
    and px: "length A \<le> length px"
    and sizes: "length A \<le> numNeuronsInputLayer" "length B \<le> numNeuronsHiddenLayer"
      "length C \<le> numNeuronsOutputLayer"
  shows "\<exists>h1 h2 h3 f. setInput h A px = Inr h1 \<and> dotProd fmt h1 A B = Inr h2
    \<and> dotProd fmt h2 B C = Inr h3 \<and> trainSample fmt h A B C px t = Inr f
    \<and> (\<forall>i<length B.
          valueOf h3 (B ! i) = applySigmoidFunction fmt (rawInput h1 A i)
        \<and> DeltaJ f i = Some (float_of_double
             (dmul (dmul (pulledError h3 (B ! i)
                            (map (\<lambda>k. (if unat t = k then 1 else 0) - valueOf h3 (C ! k))
                               [0..<length C])
                            (length C))
                         (applySigmoidFunction fmt (applySigmoidFunction fmt (rawInput h1 A i))))
                   (fsub 1 (applySigmoidFunction fmt (applySigmoidFunction fmt (rawInput h1 A i)))))))"
proof -
  have A0: "valid_layer h A 0" using A by (rule valid_layer_mono) simp
  have B0: "valid_layer h B 0" using B by (rule valid_layer_mono) simp
  from setInput_result [OF A0 dist(1) px] obtain h1 where
    h1: "setInput h A px = Inr h1"
        "\<forall>p. map_option weights (h1 p) = map_option weights (h p)"
    by (elim exE conjE)
  have A1: "valid_layer h1 A (length B)" using A by (simp add: weights_valid_layer [OF h1(2)])
  have B1: "valid_layer h1 B 0" using B0 by (simp add: weights_valid_layer [OF h1(2)])
  from dotProd_result_full [where fmt = fmt, OF A1 B1 dist(2) dist(4)] obtain h2 where
    h2: "dotProd fmt h1 A B = Inr h2"
        "\<forall>j<length B. valueOf h2 (B ! j) = applySigmoidFunction fmt (rawInput h1 A j)"
        "\<forall>p. map_option weights (h2 p) = map_option weights (h1 p)"
    by (elim exE conjE)
  have ws2: "\<forall>p. map_option weights (h2 p) = map_option weights (h p)"
    using h1(2) h2(3) by simp
  have B2: "valid_layer h2 B (length C)" using B by (simp add: weights_valid_layer [OF ws2])
  have C2: "valid_layer h2 C 0" using C by (simp add: weights_valid_layer [OF ws2])
  from dotProd_result_full [where fmt = fmt, OF B2 C2 dist(3) dist(5)] obtain h3 where
    h3: "dotProd fmt h2 B C = Inr h3"
        "\<forall>p. map_option weights (h3 p) = map_option weights (h2 p)"
        "\<forall>p. p \<notin> set C \<longrightarrow> h3 p = h2 p"
    by (elim exE conjE)
  have ws3: "\<forall>p. map_option weights (h3 p) = map_option weights (h p)"
    using ws2 h3(2) by simp
  have vB3: "valueOf h3 (B ! i) = applySigmoidFunction fmt (rawInput h1 A i)"
    if "i < length B" for i
  proof -
    have "B ! i \<notin> set C" using dist(5) that by (meson disjoint_iff nth_mem)
    then have "h3 (B ! i) = h2 (B ! i)" using h3(3) by simp
    then show ?thesis using h2(2) that by (simp add: valueOf_def)
  qed
  have A3: "valid_layer h3 A (length B)" using A by (simp add: weights_valid_layer [OF ws3])
  have B3: "valid_layer h3 B (length C)" using B by (simp add: weights_valid_layer [OF ws3])
  have C3: "valid_layer h3 C 0" using C by (simp add: weights_valid_layer [OF ws3])
  define err where
    "err = map (\<lambda>k. (if unat t = k then 1 else 0) - valueOf h3 (C ! k)) [0..<length C]"
  from resultErrorRate_written [OF sizes(3) C3, of t] obtain r where
    r: "compute_resultErrorRate h3 C t = Inr r" "written r = err"
    unfolding err_def by blast
  have lerr: "length C \<le> length err" by (simp add: err_def)
  from backPropagate_result [where fmt = fmt, OF A3 B3 lerr sizes] obtain f where
    f: "backPropagate fmt h3 A B C err = Inr f"
       "\<forall>i<length B. DeltaJ f i = Some (hiddenDelta fmt h3 B (length C) err i)"
    by (elim exE conjE)
  have ts: "trainSample fmt h A B C px t = Inr f"
    by (simp add: trainSample_def h1(1) h2(1) h3(1) r f(1))
  have "valueOf h3 (B ! i) = applySigmoidFunction fmt (rawInput h1 A i)
        \<and> DeltaJ f i = Some (float_of_double
             (dmul (dmul (pulledError h3 (B ! i) err (length C))
                         (applySigmoidFunction fmt (applySigmoidFunction fmt (rawInput h1 A i))))
                   (fsub 1 (applySigmoidFunction fmt (applySigmoidFunction fmt (rawInput h1 A i))))))"
    if i: "i < length B" for i
    using f(2) i vB3 [OF i] by (simp add: hiddenDelta_def)
  with h1(1) h2(1) h3(1) ts show ?thesis unfolding err_def by blast
qed

section \<open>Within the bounds nothing overflows\<close>

text \<open>
  The statements about \<open>dotProd\<close> and \<open>backPropagate\<close> are made for layers and error
  values within bounds. Then every operation of the two functions has a result of
  magnitude at most \<open>largest\<close> of its type, so that \<open>fl\<close> is the rounding of the machine.
\<close>

lemma fl_le_pow:
  assumes "fmt = binary32 \<or> fmt = binary64" and "\<bar>x\<bar> \<le> 2 ^ k"
  shows "\<bar>fl fmt x\<bar> \<le> 2 ^ k"
proof -
  note f = ieee_formats [OF assms(1)]
  have "fl fmt (2 powr of_int (int k)) = 2 powr of_int (int k)"
    using f by (intro fl_pow2) simp_all
  then have "fl fmt (2 ^ k) = 2 ^ k" by (simp add: powr_realpow)
  with f(1) assms(2) show ?thesis by (rule fl_abs_le)
qed

lemma fl32_le_pow: "\<bar>x\<bar> \<le> 2 ^ k \<Longrightarrow> \<bar>fl binary32 x\<bar> \<le> 2 ^ k"
  by (rule fl_le_pow) simp_all

lemma fl64_le_pow: "\<bar>x\<bar> \<le> 2 ^ k \<Longrightarrow> \<bar>fl binary64 x\<bar> \<le> 2 ^ k"
  by (rule fl_le_pow) simp_all

lemma fl32_le_mult:
  assumes "n < 2 ^ 24" and "\<bar>x\<bar> \<le> real n * 2 ^ 60"
  shows "\<bar>fl binary32 x\<bar> \<le> real n * 2 ^ 60"
proof -
  have "fl binary32 (of_int (int n) * 2 powr of_int 60) = of_int (int n) * 2 powr of_int 60"
    using assms(1) by (intro fl_exact) (simp_all add: binary32_def)
  then have "fl binary32 (real n * 2 ^ 60) = real n * 2 ^ 60" by simp
  moreover have "1 \<le> precision binary32" by (simp add: binary32_def)
  ultimately show ?thesis using assms(2) by (intro fl_abs_le)
qed

lemma largest32_ge: "2 ^ 127 \<le> largest binary32"
  using largest_ge [of binary32] by (simp add: binary32_def)

lemma largest64_ge: "2 ^ 1023 \<le> largest binary64"
  using largest_ge [of binary64] by (simp add: binary64_def)

lemma pow_le_largest32: "k \<le> 127 \<Longrightarrow> 2 ^ k \<le> largest binary32"
proof -
  assume "k \<le> 127"
  then have "(2 :: real) ^ k \<le> 2 ^ 127" by (intro power_increasing) simp_all
  with largest32_ge show ?thesis by linarith
qed

lemma pow_le_largest64: "k \<le> 1023 \<Longrightarrow> 2 ^ k \<le> largest binary64"
proof -
  assume "k \<le> 1023"
  then have "(2 :: real) ^ k \<le> 2 ^ 1023" by (intro power_increasing) simp_all
  with largest64_ge show ?thesis by linarith
qed

lemma bounded_layerD:
  assumes "bounded_layer h L" and "valid_layer h L (Suc j)" and "p \<in> set L"
  shows "\<bar>valueOf h p\<bar> \<le> 2 ^ 30" and "\<bar>weightOf h p j\<bar> \<le> 2 ^ 30"
proof -
  from assms(2,3) obtain c where c: "h p = Some c" "j < length (weights c)"
    by (auto simp: valid_layer_def list_all_iff split: option.splits)
  from assms(1,3) c(1) have b: "\<bar>nodeValue c\<bar> \<le> 2 ^ 30" "\<forall>w\<in>set (weights c). \<bar>w\<bar> \<le> 2 ^ 30"
    by (auto simp: bounded_layer_def list_all_iff)
  show "\<bar>valueOf h p\<bar> \<le> 2 ^ 30" using b(1) c(1) by (simp add: valueOf_def)
  show "\<bar>weightOf h p j\<bar> \<le> 2 ^ 30" using b(2) c by (simp add: weightOf_def)
qed

lemma abs_mult_le_pow:
  assumes "\<bar>x\<bar> \<le> 2 ^ m" and "\<bar>y\<bar> \<le> 2 ^ n"
  shows "\<bar>x * y :: real\<bar> \<le> 2 ^ (m + n)"
proof -
  have "\<bar>x\<bar> * \<bar>y\<bar> \<le> 2 ^ m * 2 ^ n" using assms by (intro mult_mono) simp_all
  then show ?thesis by (simp add: abs_mult power_add)
qed

lemma fmul_bounded:
  assumes "\<bar>x\<bar> \<le> 2 ^ m" and "\<bar>y\<bar> \<le> 2 ^ n"
  shows "\<bar>fmul x y\<bar> \<le> 2 ^ (m + n)"
  unfolding fmul_def using abs_mult_le_pow [OF assms] by (rule fl32_le_pow)

lemma dmul_bounded:
  assumes "\<bar>x\<bar> \<le> 2 ^ m" and "\<bar>y\<bar> \<le> 2 ^ n"
  shows "\<bar>dmul x y\<bar> \<le> 2 ^ (m + n)"
  unfolding dmul_def using abs_mult_le_pow [OF assms] by (rule fl64_le_pow)

lemma abs_add_le_pow:
  assumes "\<bar>x\<bar> \<le> 2 ^ m" and "\<bar>y\<bar> \<le> 2 ^ m"
  shows "\<bar>x + y :: real\<bar> \<le> 2 ^ Suc m"
  using assms by simp

lemma fadd_bounded:
  assumes "\<bar>x\<bar> \<le> 2 ^ m" and "\<bar>y\<bar> \<le> 2 ^ m"
  shows "\<bar>fadd x y\<bar> \<le> 2 ^ Suc m"
  unfolding fadd_def using abs_add_le_pow [OF assms] by (rule fl32_le_pow)

lemma dadd_bounded:
  assumes "\<bar>x\<bar> \<le> 2 ^ m" and "\<bar>y\<bar> \<le> 2 ^ m"
  shows "\<bar>dadd x y\<bar> \<le> 2 ^ Suc m"
  unfolding dadd_def using abs_add_le_pow [OF assms] by (rule fl64_le_pow)

lemma pow_mono_abs: "\<bar>x :: real\<bar> \<le> 2 ^ m \<Longrightarrow> m \<le> n \<Longrightarrow> \<bar>x\<bar> \<le> 2 ^ n"
proof -
  assume "\<bar>x\<bar> \<le> 2 ^ m" and "m \<le> n"
  moreover from \<open>m \<le> n\<close> have "(2 :: real) ^ m \<le> 2 ^ n" by (intro power_increasing) simp_all
  ultimately show ?thesis by linarith
qed

text \<open>\<open>dotProd\<close>: the sum of at most \<open>2 ^ 20\<close> products of at most \<open>2 ^ 60\<close>.\<close>

lemma rawInput_bounded:
  assumes "bounded_layer h A" and "valid_layer h A (Suc j)" and "m + length A < 2 ^ 24"
    and "\<bar>acc\<bar> \<le> real m * 2 ^ 60"
  shows "\<bar>foldl (\<lambda>value a. fadd value (fmul (weightOf h a j) (valueOf h a))) acc A\<bar>
           \<le> real (m + length A) * 2 ^ 60"
  using assms
proof (induction A arbitrary: m acc)
  case Nil
  then show ?case by simp
next
  case (Cons a A)
  have bA: "bounded_layer h A" using Cons.prems(1) by (simp add: bounded_layer_def)
  have vA: "valid_layer h A (Suc j)" using Cons.prems(2) by (simp add: valid_layer_def)
  from bounded_layerD [OF Cons.prems(1,2), of a]
  have "\<bar>valueOf h a\<bar> \<le> 2 ^ 30" "\<bar>weightOf h a j\<bar> \<le> 2 ^ 30" by simp_all
  then have "\<bar>fmul (weightOf h a j) (valueOf h a)\<bar> \<le> 2 ^ (30 + 30)"
    by (intro fmul_bounded)
  then have "\<bar>acc + fmul (weightOf h a j) (valueOf h a)\<bar> \<le> real (Suc m) * 2 ^ 60"
    using Cons.prems(4) by (simp add: algebra_simps)
  moreover have "Suc m < 2 ^ 24" using Cons.prems(3) by simp
  ultimately have "\<bar>fadd acc (fmul (weightOf h a j) (valueOf h a))\<bar> \<le> real (Suc m) * 2 ^ 60"
    unfolding fadd_def by (intro fl32_le_mult)
  moreover have "Suc m + length A < 2 ^ 24" using Cons.prems(3) by simp
  ultimately have "\<bar>foldl (\<lambda>value a. fadd value (fmul (weightOf h a j) (valueOf h a)))
                      (fadd acc (fmul (weightOf h a j) (valueOf h a))) A\<bar>
                    \<le> real (Suc m + length A) * 2 ^ 60"
    by (intro Cons.IH [OF bA vA])
  then show ?case by simp
qed

lemma dotProd_no_overflow:
  assumes b: "bounded_layer h A" and v: "valid_layer h A (Suc j)" and len: "length A \<le> 2 ^ 20"
  shows "\<forall>a\<in>set A. \<bar>fmul (weightOf h a j) (valueOf h a)\<bar> \<le> largest binary32"
    and "\<forall>n\<le>length A. \<bar>rawInput h (take n A) j\<bar> \<le> largest binary32"
proof -
  show "\<forall>a\<in>set A. \<bar>fmul (weightOf h a j) (valueOf h a)\<bar> \<le> largest binary32"
  proof
    fix a assume "a \<in> set A"
    from bounded_layerD [OF b v this]
    have "\<bar>fmul (weightOf h a j) (valueOf h a)\<bar> \<le> 2 ^ (30 + 30)" by (intro fmul_bounded)
    also have "\<dots> \<le> largest binary32" by (intro pow_le_largest32) simp
    finally show "\<bar>fmul (weightOf h a j) (valueOf h a)\<bar> \<le> largest binary32" .
  qed
  show "\<forall>n\<le>length A. \<bar>rawInput h (take n A) j\<bar> \<le> largest binary32"
  proof (intro allI impI)
    fix n assume n: "n \<le> length A"
    have bt: "bounded_layer h (take n A)"
      using b by (auto simp: bounded_layer_def list_all_iff dest: in_set_takeD)
    have vt: "valid_layer h (take n A) (Suc j)"
      using v by (auto simp: valid_layer_def list_all_iff dest: in_set_takeD)
    have "(2 :: nat) ^ 20 < 2 ^ 24" by simp
    then have lt: "0 + length (take n A) < 2 ^ 24" using len n by simp
    have "\<bar>rawInput h (take n A) j\<bar> \<le> real (0 + length (take n A)) * 2 ^ 60"
      unfolding rawInput_def by (intro rawInput_bounded [OF bt vt lt]) simp
    also have "\<dots> \<le> 2 ^ 20 * 2 ^ 60"
    proof -
      have "length (take n A) \<le> 2 ^ 20" using len n by simp
      then have "real (length (take n A)) \<le> real (2 ^ 20)" by (simp only: of_nat_le_iff)
      then show ?thesis by simp
    qed
    also have "\<dots> = (2 :: real) ^ 80" by simp
    also have "\<dots> \<le> largest binary32" by (intro pow_le_largest32) simp
    finally show "\<bar>rawInput h (take n A) j\<bar> \<le> largest binary32" .
  qed
qed

text \<open>\<open>backPropagate\<close>: the error pulled back is a sum of at most 10 products.\<close>

lemma pulledError_Suc:
  "pulledError h p err (Suc n)
     = dadd (pulledError h p err n) (dmul (weightOf h p n) (err ! n))"
  by (simp add: pulledError_def)

lemma pulledError_bounded:
  assumes b: "bounded_layer h B" and v: "valid_layer h B N" and p: "p \<in> set B"
    and e: "list_all (\<lambda>e. \<bar>e\<bar> \<le> 2 ^ 30) err" and n: "n \<le> N" "n \<le> length err"
  shows "\<bar>pulledError h p err n\<bar> \<le> 2 ^ (60 + n)"
  using n
proof (induction n)
  case 0
  then show ?case by (simp add: pulledError_def)
next
  case (Suc n)
  have vn: "valid_layer h B (Suc n)" using v Suc.prems(1) by (rule valid_layer_mono)
  have w: "\<bar>weightOf h p n\<bar> \<le> 2 ^ 30" by (rule bounded_layerD(2) [OF b vn p])
  have "err ! n \<in> set err" using Suc.prems(2) by simp
  then have en: "\<bar>err ! n\<bar> \<le> 2 ^ 30" using e by (simp add: list_all_iff)
  have "\<bar>dmul (weightOf h p n) (err ! n)\<bar> \<le> 2 ^ (30 + 30)"
    using w en by (rule dmul_bounded)
  then have t: "\<bar>dmul (weightOf h p n) (err ! n)\<bar> \<le> 2 ^ (60 + n)"
    by (rule pow_mono_abs) simp
  have "\<bar>pulledError h p err n\<bar> \<le> 2 ^ (60 + n)" using Suc by simp
  from dadd_bounded [OF this t] show ?case by (simp add: pulledError_Suc)
qed

lemma learningRate_le_1: "\<bar>learningRate\<bar> \<le> 2 ^ 0"
  by (simp add: learningRate_value)

lemma applySigmoidFunction_abs:
  assumes "fmt = binary32 \<or> fmt = binary64"
  shows "\<bar>applySigmoidFunction fmt x\<bar> \<le> 2 ^ 0"
    and "\<bar>fsub 1 (applySigmoidFunction fmt x)\<bar> \<le> 2 ^ 0"
proof -
  from applySigmoidFunction_range [OF assms, of x]
  have r: "0 \<le> applySigmoidFunction fmt x" "applySigmoidFunction fmt x \<le> 1" by simp_all
  then show "\<bar>applySigmoidFunction fmt x\<bar> \<le> 2 ^ 0" by simp
  have "\<bar>1 - applySigmoidFunction fmt x\<bar> \<le> 2 ^ 0" using r by simp
  then show "\<bar>fsub 1 (applySigmoidFunction fmt x)\<bar> \<le> 2 ^ 0"
    unfolding fsub_def by (rule fl32_le_pow)
qed

lemma backPropagate_no_overflow:
  assumes fmt: "fmt = binary32 \<or> fmt = binary64"
    and A: "valid_layer h A (length B)" "bounded_layer h A"
    and B: "valid_layer h B (length C)" "bounded_layer h B"
    and err: "length C \<le> length err" "list_all (\<lambda>e. \<bar>e\<bar> \<le> 2 ^ 30) err"
    and size: "length C \<le> numNeuronsOutputLayer"
    and a: "a < length A" and i: "i < length B" and k: "k < length C" and n: "n \<le> length C"
  defines "s \<equiv> applySigmoidFunction fmt (valueOf h (B ! i))"
  shows "\<bar>dmul (weightOf h (B ! i) k) (err ! k)\<bar> \<le> largest binary64"
    and "\<bar>pulledError h (B ! i) err n\<bar> \<le> largest binary64"
    and "\<bar>dmul learningRate (err ! k)\<bar> \<le> largest binary64"
    and "\<bar>dmul (dmul learningRate (err ! k)) (valueOf h (B ! i))\<bar> \<le> largest binary64"
    and "\<bar>float_of_double (dmul (dmul learningRate (err ! k)) (valueOf h (B ! i)))\<bar>
           \<le> largest binary32"
    and "\<bar>dmul (pulledError h (B ! i) err (length C)) s\<bar> \<le> largest binary64"
    and "\<bar>fsub 1 s\<bar> \<le> largest binary32"
    and "\<bar>dmul (dmul (pulledError h (B ! i) err (length C)) s) (fsub 1 s)\<bar> \<le> largest binary64"
    and "\<bar>hiddenDelta fmt h B (length C) err i\<bar> \<le> largest binary32"
    and "\<bar>fmul learningRate (hiddenDelta fmt h B (length C) err i)\<bar> \<le> largest binary32"
    and "\<bar>fmul (fmul learningRate (hiddenDelta fmt h B (length C) err i)) (valueOf h (A ! a))\<bar>
           \<le> largest binary32"
    and "\<bar>fadd (weightOf h (A ! a) i)
              (fmul (fmul learningRate (hiddenDelta fmt h B (length C) err i)) (valueOf h (A ! a)))\<bar>
           \<le> largest binary32"
    and "\<bar>fadd (weightOf h (B ! i) k)
              (float_of_double (dmul (dmul learningRate (err ! k)) (valueOf h (B ! i))))\<bar>
           \<le> largest binary32"
proof -
  have pB: "B ! i \<in> set B" using i by simp
  have pA: "A ! a \<in> set A" using a by simp
  have vB: "valid_layer h B (Suc k)" using B(1) k by (intro valid_layer_mono [OF B(1)]) simp
  have vA: "valid_layer h A (Suc i)" using A(1) i by (intro valid_layer_mono [OF A(1)]) simp
  have wB: "\<bar>weightOf h (B ! i) k\<bar> \<le> 2 ^ 30" and xB: "\<bar>valueOf h (B ! i)\<bar> \<le> 2 ^ 30"
    using bounded_layerD [OF B(2) vB pB] by simp_all
  have wA: "\<bar>weightOf h (A ! a) i\<bar> \<le> 2 ^ 30" and xA: "\<bar>valueOf h (A ! a)\<bar> \<le> 2 ^ 30"
    using bounded_layerD [OF A(2) vA pA] by simp_all
  have "err ! k \<in> set err" using k err(1) by simp
  then have ek: "\<bar>err ! k\<bar> \<le> 2 ^ 30" using err(2) by (simp add: list_all_iff)
  have C10: "length C \<le> 10" using size by (simp add: numNeuronsOutputLayer_def)
  have 1: "\<bar>dmul (weightOf h (B ! i) k) (err ! k)\<bar> \<le> 2 ^ (30 + 30)"
    using wB ek by (rule dmul_bounded)
  have "\<bar>pulledError h (B ! i) err n\<bar> \<le> 2 ^ (60 + n)"
    using B(2,1) pB err(2) n by (rule pulledError_bounded) (use n err(1) in simp)
  then have 2: "\<bar>pulledError h (B ! i) err n\<bar> \<le> 2 ^ 70"
    by (rule pow_mono_abs) (use n C10 in simp)
  have "\<bar>pulledError h (B ! i) err (length C)\<bar> \<le> 2 ^ (60 + length C)"
    using B(2,1) pB err(2) order_refl err(1) by (rule pulledError_bounded)
  then have pe: "\<bar>pulledError h (B ! i) err (length C)\<bar> \<le> 2 ^ 70"
    by (rule pow_mono_abs) (use C10 in simp)
  have 3: "\<bar>dmul learningRate (err ! k)\<bar> \<le> 2 ^ (0 + 30)"
    using learningRate_le_1 ek by (rule dmul_bounded)
  have 4: "\<bar>dmul (dmul learningRate (err ! k)) (valueOf h (B ! i))\<bar> \<le> 2 ^ (0 + 30 + 30)"
    using 3 xB by (rule dmul_bounded)
  have 5: "\<bar>float_of_double (dmul (dmul learningRate (err ! k)) (valueOf h (B ! i)))\<bar>
             \<le> 2 ^ (0 + 30 + 30)"
    unfolding float_of_double_def using 4 by (rule fl32_le_pow)
  have 6: "\<bar>dmul (pulledError h (B ! i) err (length C)) s\<bar> \<le> 2 ^ (70 + 0)"
    unfolding s_def using pe applySigmoidFunction_abs(1) [OF fmt] by (rule dmul_bounded)
  have 7: "\<bar>fsub 1 s\<bar> \<le> 2 ^ 0"
    unfolding s_def by (rule applySigmoidFunction_abs(2) [OF fmt])
  have 8: "\<bar>dmul (dmul (pulledError h (B ! i) err (length C)) s) (fsub 1 s)\<bar> \<le> 2 ^ (70 + 0 + 0)"
    using 6 7 by (rule dmul_bounded)
  have hd: "hiddenDelta fmt h B (length C) err i
      = float_of_double (dmul (dmul (pulledError h (B ! i) err (length C)) s) (fsub 1 s))"
    by (simp add: hiddenDelta_def s_def)
  have 9: "\<bar>hiddenDelta fmt h B (length C) err i\<bar> \<le> 2 ^ (70 + 0 + 0)"
    unfolding hd float_of_double_def using 8 by (rule fl32_le_pow)
  have 10: "\<bar>fmul learningRate (hiddenDelta fmt h B (length C) err i)\<bar> \<le> 2 ^ (0 + (70 + 0 + 0))"
    using learningRate_le_1 9 by (rule fmul_bounded)
  have 11: "\<bar>fmul (fmul learningRate (hiddenDelta fmt h B (length C) err i)) (valueOf h (A ! a))\<bar>
              \<le> 2 ^ (0 + (70 + 0 + 0) + 30)"
    using 10 xA by (rule fmul_bounded)
  have 12: "\<bar>fadd (weightOf h (A ! a) i)
              (fmul (fmul learningRate (hiddenDelta fmt h B (length C) err i)) (valueOf h (A ! a)))\<bar>
              \<le> 2 ^ Suc 100"
  proof (rule fadd_bounded)
    show "\<bar>weightOf h (A ! a) i\<bar> \<le> 2 ^ 100" using wA by (rule pow_mono_abs) simp
    show "\<bar>fmul (fmul learningRate (hiddenDelta fmt h B (length C) err i)) (valueOf h (A ! a))\<bar>
            \<le> 2 ^ 100"
      using 11 by (rule pow_mono_abs) simp
  qed
  have 13: "\<bar>fadd (weightOf h (B ! i) k)
              (float_of_double (dmul (dmul learningRate (err ! k)) (valueOf h (B ! i))))\<bar>
              \<le> 2 ^ Suc 60"
  proof (rule fadd_bounded)
    show "\<bar>weightOf h (B ! i) k\<bar> \<le> 2 ^ 60" using wB by (rule pow_mono_abs) simp
    show "\<bar>float_of_double (dmul (dmul learningRate (err ! k)) (valueOf h (B ! i)))\<bar> \<le> 2 ^ 60"
      using 5 by (rule pow_mono_abs) simp
  qed
  show "\<bar>dmul (weightOf h (B ! i) k) (err ! k)\<bar> \<le> largest binary64"
    using 1 pow_le_largest64 [of "30 + 30"] by simp
  show "\<bar>pulledError h (B ! i) err n\<bar> \<le> largest binary64"
    using 2 pow_le_largest64 [of 70] by simp
  show "\<bar>dmul learningRate (err ! k)\<bar> \<le> largest binary64"
    using 3 pow_le_largest64 [of "0 + 30"] by simp
  show "\<bar>dmul (dmul learningRate (err ! k)) (valueOf h (B ! i))\<bar> \<le> largest binary64"
    using 4 pow_le_largest64 [of "0 + 30 + 30"] by simp
  show "\<bar>float_of_double (dmul (dmul learningRate (err ! k)) (valueOf h (B ! i)))\<bar>
           \<le> largest binary32"
    using 5 pow_le_largest32 [of "0 + 30 + 30"] by simp
  show "\<bar>dmul (pulledError h (B ! i) err (length C)) s\<bar> \<le> largest binary64"
    using 6 pow_le_largest64 [of "70 + 0"] by simp
  show "\<bar>fsub 1 s\<bar> \<le> largest binary32"
    using 7 pow_le_largest32 [of 0] by simp
  show "\<bar>dmul (dmul (pulledError h (B ! i) err (length C)) s) (fsub 1 s)\<bar> \<le> largest binary64"
    using 8 pow_le_largest64 [of "70 + 0 + 0"] by simp
  show "\<bar>hiddenDelta fmt h B (length C) err i\<bar> \<le> largest binary32"
    using 9 pow_le_largest32 [of "70 + 0 + 0"] by simp
  show "\<bar>fmul learningRate (hiddenDelta fmt h B (length C) err i)\<bar> \<le> largest binary32"
    using 10 pow_le_largest32 [of "0 + (70 + 0 + 0)"] by simp
  show "\<bar>fmul (fmul learningRate (hiddenDelta fmt h B (length C) err i)) (valueOf h (A ! a))\<bar>
           \<le> largest binary32"
    using 11 pow_le_largest32 [of "0 + (70 + 0 + 0) + 30"] by simp
  show "\<bar>fadd (weightOf h (A ! a) i)
              (fmul (fmul learningRate (hiddenDelta fmt h B (length C) err i)) (valueOf h (A ! a)))\<bar>
           \<le> largest binary32"
    using 12 pow_le_largest32 [of "Suc 100"] by simp
  show "\<bar>fadd (weightOf h (B ! i) k)
              (float_of_double (dmul (dmul learningRate (err ! k)) (valueOf h (B ! i))))\<bar>
           \<le> largest binary32"
    using 13 pow_le_largest32 [of "Suc 60"] by simp
qed

end
